theory Spec2Isabelle
  imports Complex_Main "HOL-Library.Log_Nat"
begin

section \<open>Data model (types.ts)\<close>

text \<open>
  A TypeScript \<open>number\<close> that holds a time is modelled as a \<^typ>\<open>real\<close>, without NaN and
  without infinities. The sums and differences that \<open>handleTimeOffset\<close> stores are rounded
  to double precision (\<open>js_round\<close> below); comparisons are exact, as they are on doubles,
  and the products and quotients by 1000 between seconds and milliseconds are taken
  exactly. Indices are \<^typ>\<open>int\<close>, because \<open>-1\<close> is the
  "not found" value. A string is the list of its UTF-16 code units. Objects that the code
  shares and mutates live in a store and are named by their address.
\<close>

type_synonym addr = nat
type_synonym js_string = "nat list"

text \<open>Interface \<open>SubtitleEntry\<close>; the field \<open>text\<close> is written \<open>text'\<close>.\<close>

record SubtitleEntry =
  index :: int
  startTime :: real
  endTime :: real
  preciseStartTime :: real
  preciseEndTime :: real
  text' :: js_string

text \<open>
  Interface \<open>Subtitle\<close>; the field \<open>id\<close> is written \<open>id'\<close>. The array \<open>entries\<close> holds
  references to entry objects. No handler of the play page adds, removes or replaces an
  element of the array, so the array is kept as the list of the addresses it holds.
\<close>

record Subtitle =
  id' :: int
  videoId :: int
  entries :: "addr list"
  createdAt :: real
  lastSubtitleIndex :: "int option"

datatype PlayMode = CONTINUOUS_PLAY | SINGLE_PAUSE | SINGLE_LOOP

datatype direction = Next | Previous

datatype error = TypeError

section \<open>Time-to-index resolution (PlayPage.tsx)\<close>

text \<open>
  \<open>Array.prototype.findIndex\<close>: the index of the first element that satisfies the
  predicate, \<open>-1\<close> when there is none.
\<close>

fun findIndex_from :: "('a \<Rightarrow> bool) \<Rightarrow> 'a list \<Rightarrow> int \<Rightarrow> int" where
  "findIndex_from p [] k = - 1"
| "findIndex_from p (x # xs) k = (if p x then k else findIndex_from p xs (k + 1))"

definition findIndex :: "('a \<Rightarrow> bool) \<Rightarrow> 'a list \<Rightarrow> int" where
  "findIndex p xs = findIndex_from p xs 0"

text \<open>
  The predicate handed to \<open>findIndex\<close> in \<open>handleTimeUpdate\<close>:
  \<open>currentTimeMs >= entry.startTime && currentTimeMs < entry.endTime\<close>.
\<close>

definition entryContains :: "real \<Rightarrow> SubtitleEntry \<Rightarrow> bool" where
  "entryContains currentTimeMs entry =
     (currentTimeMs \<ge> startTime entry \<and> currentTimeMs < endTime entry)"

text \<open>
  \<open>findSubtitleIndexByTime\<close>: the \<open>while (left <= right)\<close> loop, with \<open>left\<close>, \<open>right\<close>
  and \<open>result\<close> as arguments (the parameter \<open>entries\<close> is written \<open>es\<close>).
  Reading \<open>entries[mid]\<close> outside the array gives
  \<open>undefined\<close>, and \<open>undefined.startTime\<close> throws a TypeError.
\<close>

function findSubtitleIndexByTime_loop ::
  "SubtitleEntry list \<Rightarrow> real \<Rightarrow> direction \<Rightarrow> int \<Rightarrow> int \<Rightarrow> int \<Rightarrow> error + int" where
  "findSubtitleIndexByTime_loop es targetTime dir left right result =
     (if left \<le> right then
        (if 0 \<le> (left + right) div 2 \<and> (left + right) div 2 < int (length es) then
           (if dir = Next then
              (if startTime (es ! nat ((left + right) div 2)) > targetTime
               then findSubtitleIndexByTime_loop es targetTime dir
                      left ((left + right) div 2 - 1) ((left + right) div 2)
               else findSubtitleIndexByTime_loop es targetTime dir
                      ((left + right) div 2 + 1) right result)
            else
              (if startTime (es ! nat ((left + right) div 2)) < targetTime
               then findSubtitleIndexByTime_loop es targetTime dir
                      ((left + right) div 2 + 1) right ((left + right) div 2)
               else findSubtitleIndexByTime_loop es targetTime dir
                      left ((left + right) div 2 - 1) result))
         else Inl TypeError)
      else Inr result)"
  by pat_completeness auto
termination
  by (relation "measure (\<lambda>(es, targetTime, dir, left, right, result). nat (right - left + 1))")
     auto

definition findSubtitleIndexByTime ::
  "SubtitleEntry list \<Rightarrow> real \<Rightarrow> direction \<Rightarrow> error + int" where
  "findSubtitleIndexByTime es targetTime dir =
     findSubtitleIndexByTime_loop es targetTime dir 0 (int (length es) - 1) (- 1)"

section \<open>The play page component (PlayPage.tsx)\<close>

text \<open>
  The media element behind \<open>videoRef.current\<close>: \<open>currentTime\<close> is in seconds. The browser's
  clamping of a seek to the seekable range is not modelled.
\<close>

record Video =
  currentTime :: real
  paused :: bool

text \<open>The state \<open>editedTime\<close>; its fields \<open>startTime\<close> and \<open>endTime\<close> carry a prime.\<close>

record EditedTime =
  startTime' :: real
  endTime' :: real

text \<open>
  The calls of antd's \<open>message\<close> made by the save handler: \<open>message.warning\<close> (the text
  must not be empty), \<open>message.success\<close> (saved) and \<open>message.error\<close> (saving failed).
\<close>

datatype message = message_warning | message_success | message_error

text \<open>
  The component's state, as far as the handlers below read or write it. \<open>entryObjs\<close> and
  \<open>subtitleObjs\<close> are the store: the objects at each address, \<open>nextAddr\<close> the first address
  not yet in use. \<open>subtitle\<close> is the React state holding a reference to a \<open>Subtitle\<close> object
  (or \<open>undefined\<close>), \<open>isSeeking\<close> and \<open>videoRef\<close> are the refs' \<open>current\<close> values.
  \<open>messages\<close> lists the \<open>message\<close> calls and \<open>updateSubtitleCalls\<close> the calls of
  \<open>MediaDatabaseService.updateSubtitle\<close>, oldest first, each with the track as it was when
  the call was made.
\<close>

record PlayPage =
  entryObjs :: "addr \<Rightarrow> SubtitleEntry"
  subtitleObjs :: "addr \<Rightarrow> Subtitle"
  nextAddr :: addr
  subtitle :: "addr option"
  currentSubtitleIndex :: int
  playMode :: PlayMode
  isPlaying :: bool
  editMode :: bool
  editedTime :: EditedTime
  editedText :: js_string
  isSeeking :: bool
  recordingMode :: bool
  videoRef :: "Video option"
  messages :: "message list"
  updateSubtitleCalls :: "(Subtitle \<times> SubtitleEntry list) list"

text \<open>\<open>sub.entries[i]\<close>: the reference held at position \<open>i\<close>, \<open>None\<close> for \<open>undefined\<close>.\<close>

definition entryRefAt :: "PlayPage \<Rightarrow> addr \<Rightarrow> int \<Rightarrow> addr option" where
  "entryRefAt s sub i =
     (if 0 \<le> i \<and> i < int (length (entries (subtitleObjs s sub)))
      then Some (entries (subtitleObjs s sub) ! nat i) else None)"

text \<open>The entries a reader sees through the track reference \<open>sub\<close>.\<close>

definition readEntries :: "PlayPage \<Rightarrow> addr \<Rightarrow> SubtitleEntry list" where
  "readEntries s sub = map (entryObjs s) (entries (subtitleObjs s sub))"

text \<open>
  \<open>videoRef.current.currentTime = x\<close>, \<open>videoRef.current.pause()\<close> and
  \<open>videoRef.current.play()\<close>. The events the element sends afterwards (\<open>seeking\<close>,
  \<open>seeked\<close>, \<open>play\<close>, \<open>pause\<close>) are not part of these calls: each event is a handler call
  of its own.
\<close>

definition video_seek :: "real \<Rightarrow> PlayPage \<Rightarrow> PlayPage" where
  "video_seek x s = s\<lparr>videoRef := map_option (\<lambda>v. v\<lparr>currentTime := x\<rparr>) (videoRef s)\<rparr>"

definition video_pause :: "PlayPage \<Rightarrow> PlayPage" where
  "video_pause s = s\<lparr>videoRef := map_option (\<lambda>v. v\<lparr>paused := True\<rparr>) (videoRef s)\<rparr>"

definition video_play :: "PlayPage \<Rightarrow> PlayPage" where
  "video_play s = s\<lparr>videoRef := map_option (\<lambda>v. v\<lparr>paused := False\<rparr>) (videoRef s)\<rparr>"

text \<open>
  \<open>checkPlayMode\<close> returns whether \<open>currentSubtitleIndex\<close> may be updated, together with
  the state after its seek and pause. In edit mode \<open>editedTime.startTime !== undefined\<close>
  always holds (the state always carries two numbers), so \<open>currentEntry\<close> is not read there.
  Elsewhere a \<open>currentEntry\<close> that is \<open>undefined\<close> makes the first field access throw, before
  any effect.
\<close>

definition checkPlayMode :: "bool \<Rightarrow> PlayPage \<Rightarrow> error + (bool \<times> PlayPage)" where
  "checkPlayMode shouldSeekToStart s =
     (case subtitle s of
        None \<Rightarrow> Inr (True, s)
      | Some sub \<Rightarrow>
          if currentSubtitleIndex s = - 1 then Inr (True, s)
          else (case videoRef s of
            None \<Rightarrow> Inr (True, s)
          | Some v \<Rightarrow>
              if isSeeking s then Inr (True, s)
              else
                let currentTimeMs = currentTime v * 1000;
                    currentEntry = map_option (entryObjs s) (entryRefAt s sub (currentSubtitleIndex s))
                in
                  if editMode s \<or> recordingMode s then
                    (if editMode s then
                       (let s1 = (if shouldSeekToStart
                                  then video_seek (startTime' (editedTime s) / 1000) s else s)
                        in Inr (False, if currentTimeMs \<ge> endTime' (editedTime s)
                                       then video_pause s1 else s1))
                     else
                       (case currentEntry of
                          None \<Rightarrow> Inl TypeError
                        | Some e \<Rightarrow>
                            (let s1 = (if shouldSeekToStart
                                       then video_seek (preciseStartTime e / 1000) s else s)
                             in Inr (False, if currentTimeMs \<ge> preciseEndTime e
                                            then video_pause s1 else s1))))
                  else if playMode s = SINGLE_PAUSE then
                    (case currentEntry of
                       None \<Rightarrow> Inl TypeError
                     | Some e \<Rightarrow>
                         (let s1 = (if shouldSeekToStart
                                    then video_seek (preciseStartTime e / 1000) s else s)
                          in Inr (False, if currentTimeMs \<ge> preciseEndTime e
                                         then video_pause s1 else s1)))
                  else if playMode s = SINGLE_LOOP then
                    (case currentEntry of
                       None \<Rightarrow> Inl TypeError
                     | Some e \<Rightarrow>
                         Inr (False, if currentTimeMs \<ge> preciseEndTime e
                                     then video_seek (preciseStartTime e / 1000) s else s))
                  else Inr (True, s)))"

text \<open>
  \<open>handleTimeUpdate\<close>. \<open>videoRef.current!.currentTime\<close> throws when the ref is null;
  \<open>x || 0\<close> is \<open>x\<close> on the reals. An \<open>Inl\<close> result stands for an exception thrown before any
  effect: the state is the one the handler was called in.
\<close>

definition handleTimeUpdate :: "PlayPage \<Rightarrow> error + PlayPage" where
  "handleTimeUpdate s =
     (case subtitle s of
        None \<Rightarrow> Inr s
      | Some sub \<Rightarrow>
          (case videoRef s of
             None \<Rightarrow> Inl TypeError
           | Some v \<Rightarrow>
               (let currentTimeMs = currentTime v * 1000 in
                case checkPlayMode False s of
                  Inl e \<Rightarrow> Inl e
                | Inr (allowed, s1) \<Rightarrow>
                    if \<not> allowed then Inr s1
                    else
                      (let i = findIndex (entryContains currentTimeMs) (readEntries s1 sub)
                       in if i \<noteq> - 1
                          then Inr (s1\<lparr>currentSubtitleIndex := i, isSeeking := False\<rparr>)
                          else Inr s1))))"

definition handleSeeking :: "PlayPage \<Rightarrow> PlayPage" where
  "handleSeeking s = s\<lparr>isSeeking := True\<rparr>"

definition handleSeeked :: "PlayPage \<Rightarrow> PlayPage" where
  "handleSeeked s = s\<lparr>isSeeking := True\<rparr>"

definition handleTogglePlayPause :: "PlayPage \<Rightarrow> error + PlayPage" where
  "handleTogglePlayPause s =
     (case videoRef s of
        None \<Rightarrow> Inr s
      | Some v \<Rightarrow>
          if isPlaying s then Inr (video_pause s)
          else (case checkPlayMode True s of
                  Inl e \<Rightarrow> Inl e
                | Inr (allowed, s1) \<Rightarrow> Inr (video_play s1)))"

text \<open>
  The media clock reaches \<open>t\<close> seconds and the \<open>timeupdate\<close> event is delivered; an
  exception in the handler leaves the state as it was. \<open>ticks\<close> delivers one event for each
  time of a list.
\<close>

definition tick :: "real \<Rightarrow> PlayPage \<Rightarrow> PlayPage" where
  "tick t s =
     (case handleTimeUpdate (video_seek t s) of
        Inl e \<Rightarrow> video_seek t s
      | Inr s1 \<Rightarrow> s1)"

fun ticks :: "real list \<Rightarrow> PlayPage \<Rightarrow> PlayPage" where
  "ticks [] s = s"
| "ticks (t # ts) s = ticks ts (tick t s)"

subsection \<open>Edit session\<close>

text \<open>
  \<open>String.prototype.trim\<close> removes the ECMAScript WhiteSpace and LineTerminator code
  units from both ends.
\<close>

definition isWhiteSpace :: "nat \<Rightarrow> bool" where
  "isWhiteSpace c =
     (c \<in> set [9, 10, 11, 12, 13, 32, 160, 5760, 8232, 8233, 8239, 8287, 12288, 65279]
      \<or> (8192 \<le> c \<and> c \<le> 8202))"

definition trim :: "js_string \<Rightarrow> js_string" where
  "trim str = rev (dropWhile isWhiteSpace (rev (dropWhile isWhiteSpace str)))"

definition handleEnterEditMode :: "int \<Rightarrow> PlayPage \<Rightarrow> error + PlayPage" where
  "handleEnterEditMode subtitleIndex s =
     (case subtitle s of
        None \<Rightarrow> Inr s
      | Some sub \<Rightarrow>
          if subtitleIndex = - 1 \<or> videoRef s = None then Inr s
          else (case map_option (entryObjs s) (entryRefAt s sub subtitleIndex) of
                  None \<Rightarrow> Inl TypeError
                | Some targetEntry \<Rightarrow>
                    Inr ((video_pause (video_seek (startTime targetEntry / 1000) s))
                          \<lparr>editedTime := \<lparr>startTime' = preciseStartTime targetEntry,
                                           endTime' = preciseEndTime targetEntry\<rparr>,
                           editedText := text' targetEntry,
                           currentSubtitleIndex := subtitleIndex,
                           editMode := True\<rparr>)))"

definition handleExitEditMode :: "PlayPage \<Rightarrow> PlayPage" where
  "handleExitEditMode s =
     s\<lparr>editMode := False, editedTime := \<lparr>startTime' = 0, endTime' = 0\<rparr>, editedText := []\<rparr>"

text \<open>
  The value of a sum or difference of two numbers: IEEE 754 binary64 arithmetic returns
  the exact result rounded to the nearest double, a tie going to the double whose
  significand is even. \<open>pow2 e\<close> is \<open>2\<close> to the power \<open>e\<close>; \<open>expo x\<close> is the exponent of \<open>x\<close>, the
  \<open>e\<close> with \<open>pow2 e \<le> \<bar>x\<bar> < pow2 (e + 1)\<close>; a double with the exponent \<open>e\<close> is a multiple of
  \<open>pow2 (e - 52)\<close>, and below \<open>pow2 (- 1022)\<close> doubles are the multiples of \<open>pow2 (- 1074)\<close>.
  Overflow (a result of magnitude \<open>pow2 1024\<close> or more, which the code turns into
  \<open>Infinity\<close>) is not modelled.
\<close>

definition pow2 :: "int \<Rightarrow> real" where
  "pow2 e = (if 0 \<le> e then 2 ^ nat e else 1 / 2 ^ nat (- e))"

definition expo :: "real \<Rightarrow> int" where
  "expo x =
     (if 1 \<le> \<bar>x\<bar> then int (floorlog 2 (nat \<lfloor>\<bar>x\<bar>\<rfloor>)) - 1
      else - int (floorlog 2 (nat (\<lceil>1 / \<bar>x\<bar>\<rceil> - 1))))"

definition round_half_even :: "real \<Rightarrow> int" where
  "round_half_even y =
     (if y - of_int \<lfloor>y\<rfloor> < 1 / 2 then \<lfloor>y\<rfloor>
      else if 1 / 2 < y - of_int \<lfloor>y\<rfloor> then \<lfloor>y\<rfloor> + 1
      else if even \<lfloor>y\<rfloor> then \<lfloor>y\<rfloor> else \<lfloor>y\<rfloor> + 1)"

definition js_round :: "real \<Rightarrow> real" where
  "js_round x =
     (if x = 0 then 0
      else of_int (round_half_even (x / pow2 (max (expo x) (- 1022) - 52)))
             * pow2 (max (expo x) (- 1022) - 52))"

definition handleTimeOffset :: "real \<Rightarrow> bool \<Rightarrow> bool \<Rightarrow> PlayPage \<Rightarrow> PlayPage" where
  "handleTimeOffset offset isStartTime isForward s =
     (let prev = editedTime s;
          newTime = (if isStartTime then startTime' prev else endTime' prev);
          newOffset = (if isForward then js_round (newTime + offset)
                       else js_round (newTime - offset))
      in s\<lparr>editedTime := (if isStartTime then prev\<lparr>startTime' := newOffset\<rparr>
                           else prev\<lparr>endTime' := newOffset\<rparr>)\<rparr>)"

text \<open>
  \<open>handleSaveSubtitleEdit\<close> is an async function. \<open>handleSaveSubtitleEdit_sync\<close> is its run
  up to the \<open>await\<close>: it has either returned, or it is suspended with the reference
  \<open>updatedSubtitle\<close> while the database call is under way, and other handlers may run.
  \<open>{ ...subtitle }\<close> makes a new \<open>Subtitle\<close> object with the fields of the old one, so its
  \<open>entries\<close> are the same references. \<open>!editedTime\<close> and \<open>editedTime.startTime !== null\<close> do
  not depend on the state (an object, a number). A \<open>currentEntry\<close> that is \<open>undefined\<close>
  throws inside the \<open>try\<close>, and the \<open>catch\<close> reports the failure.
\<close>

datatype SaveOutcome = Returned PlayPage | Awaiting PlayPage addr

definition add_message :: "message \<Rightarrow> PlayPage \<Rightarrow> PlayPage" where
  "add_message m s = s\<lparr>messages := messages s @ [m]\<rparr>"

definition handleSaveSubtitleEdit_sync :: "PlayPage \<Rightarrow> SaveOutcome" where
  "handleSaveSubtitleEdit_sync s =
     (case subtitle s of
        None \<Rightarrow> Returned s
      | Some sub \<Rightarrow>
          if currentSubtitleIndex s = - 1 then Returned s
          else
            let trimmedText = trim (editedText s) in
            if trimmedText = [] then Returned (add_message message_warning s)
            else
              let updatedSubtitle = nextAddr s;
                  s1 = s\<lparr>subtitleObjs := (subtitleObjs s)(updatedSubtitle := subtitleObjs s sub),
                         nextAddr := Suc (nextAddr s)\<rparr>
              in (case entryRefAt s1 updatedSubtitle (currentSubtitleIndex s) of
                    None \<Rightarrow> Returned (add_message message_error s1)
                  | Some currentEntry \<Rightarrow>
                      let s2 = s1\<lparr>entryObjs := (entryObjs s1)
                                   (currentEntry := (entryObjs s1 currentEntry)
                                      \<lparr>preciseStartTime := startTime' (editedTime s),
                                       preciseEndTime := endTime' (editedTime s),
                                       text' := trimmedText\<rparr>)\<rparr>;
                          s3 = s2\<lparr>updateSubtitleCalls := updateSubtitleCalls s2 @
                                   [(subtitleObjs s2 updatedSubtitle,
                                     readEntries s2 updatedSubtitle)]\<rparr>
                      in Awaiting s3 updatedSubtitle))"

text \<open>
  The rest of the handler, once the database call has settled: \<open>resolved\<close> tells whether
  the promise was fulfilled or rejected.
\<close>

definition handleSaveSubtitleEdit_resume :: "bool \<Rightarrow> addr \<Rightarrow> PlayPage \<Rightarrow> PlayPage" where
  "handleSaveSubtitleEdit_resume resolved updatedSubtitle s =
     (if resolved
      then handleExitEditMode (add_message message_success (s\<lparr>subtitle := Some updatedSubtitle\<rparr>))
      else add_message message_error s)"

text \<open>The whole handler, when no other event is handled during the \<open>await\<close>.\<close>

definition handleSaveSubtitleEdit :: "bool \<Rightarrow> PlayPage \<Rightarrow> PlayPage" where
  "handleSaveSubtitleEdit resolved s =
     (case handleSaveSubtitleEdit_sync s of
        Returned s1 \<Rightarrow> s1
      | Awaiting s1 updatedSubtitle \<Rightarrow> handleSaveSubtitleEdit_resume resolved updatedSubtitle s1)"

subsection \<open>The second copy of the play page\<close>

text \<open>
  PlayPage.tsx holds the component twice. The definitions above follow the first copy;
  the handlers of the second copy that differ carry the suffix \<open>_2\<close>. Its play mode \<open>OFF\<close>
  is \<^const>\<open>CONTINUOUS_PLAY\<close> here.
\<close>

definition checkPlayMode_2 :: "bool \<Rightarrow> PlayPage \<Rightarrow> error + (bool \<times> PlayPage)" where
  "checkPlayMode_2 shouldSeekToStart s =
     (case subtitle s of
        None \<Rightarrow> Inr (True, s)
      | Some sub \<Rightarrow>
          if currentSubtitleIndex s = - 1 then Inr (True, s)
          else (case videoRef s of
            None \<Rightarrow> Inr (True, s)
          | Some v \<Rightarrow>
              let currentTimeMs = currentTime v * 1000;
                  currentEntry = map_option (entryObjs s) (entryRefAt s sub (currentSubtitleIndex s))
              in
                if editMode s \<or> recordingMode s then
                  (if editMode s then
                     (let s1 = (if shouldSeekToStart
                                then video_seek (startTime' (editedTime s) / 1000) s else s)
                      in Inr (False, if currentTimeMs \<ge> endTime' (editedTime s)
                                     then video_pause s1 else s1))
                   else
                     (case currentEntry of
                        None \<Rightarrow> Inl TypeError
                      | Some e \<Rightarrow>
                          (let s1 = (if shouldSeekToStart
                                     then video_seek (preciseStartTime e / 1000) s else s)
                           in Inr (False, if currentTimeMs \<ge> preciseEndTime e
                                          then video_pause s1 else s1))))
                else if playMode s = SINGLE_PAUSE then
                  (case currentEntry of
                     None \<Rightarrow> Inl TypeError
                   | Some e \<Rightarrow>
                       (let s1 = (if shouldSeekToStart
                                  then video_seek (preciseStartTime e / 1000) s else s)
                        in Inr (False, if currentTimeMs \<ge> preciseEndTime e
                                       then video_pause s1 else s1)))
                else if playMode s = SINGLE_LOOP then
                  (case currentEntry of
                     None \<Rightarrow> Inl TypeError
                   | Some e \<Rightarrow>
                       Inr (False, if currentTimeMs \<ge> preciseEndTime e
                                   then video_seek (preciseStartTime e / 1000) s else s))
                else Inr (True, s)))"

definition handleTimeUpdate_2 :: "PlayPage \<Rightarrow> error + PlayPage" where
  "handleTimeUpdate_2 s =
     (if isSeeking s then Inr s
      else (case subtitle s of
        None \<Rightarrow> Inr s
      | Some sub \<Rightarrow>
          (case videoRef s of
             None \<Rightarrow> Inl TypeError
           | Some v \<Rightarrow>
               (let currentTimeMs = currentTime v * 1000 in
                case checkPlayMode_2 False s of
                  Inl e \<Rightarrow> Inl e
                | Inr (allowed, s1) \<Rightarrow>
                    if \<not> allowed then Inr s1
                    else
                      (let i = findIndex (entryContains currentTimeMs) (readEntries s1 sub)
                       in if i \<noteq> - 1
                          then Inr (s1\<lparr>currentSubtitleIndex := i\<rparr>)
                          else Inr s1)))))"

definition handleSeeking_2 :: "PlayPage \<Rightarrow> PlayPage" where
  "handleSeeking_2 s = s\<lparr>isSeeking := True\<rparr>"

definition handleSeeked_2 :: "PlayPage \<Rightarrow> PlayPage" where
  "handleSeeked_2 s = s\<lparr>isSeeking := False\<rparr>"

section \<open>Persisting the index (useSubtitleIndexPersist.ts)\<close>

text \<open>
  The hook's state between renders. \<open>Number(mediaId)\<close> is taken as an \<^typ>\<open>int\<close>.
  \<open>pending\<close> is the state of lodash's \<open>debounce(f, 500)\<close> (trailing edge): the arguments of
  the latest call and the time at which \<open>f\<close> will be called with them, \<open>None\<close> when no call
  is waiting. \<open>cleanup\<close> is the function returned by the last run of the effect, which has
  captured \<open>Number(mediaId)\<close> and \<open>currentSubtitleIndex\<close> of its render; \<open>deps\<close> is the
  dependency array of that run, \<open>None\<close> before the first render. \<open>clock\<close> counts
  milliseconds. \<open>updateSubtitleIndexCalls\<close> lists the calls of
  \<open>MediaDatabaseService.updateSubtitleIndex\<close>, oldest first.
\<close>

record PersistHook =
  isFirstRenderRef :: bool
  pending :: "(int \<times> int \<times> nat) option"
  cleanup :: "(int \<times> int) option"
  deps :: "(int \<times> int) option"
  clock :: nat
  updateSubtitleIndexCalls :: "(int \<times> int) list"

definition mount :: PersistHook where
  "mount = \<lparr>isFirstRenderRef = True, pending = None, cleanup = None, deps = None,
            clock = 0, updateSubtitleIndexCalls = []\<rparr>"

definition updateSubtitleIndex :: "int \<Rightarrow> int \<Rightarrow> PersistHook \<Rightarrow> PersistHook" where
  "updateSubtitleIndex mediaId i h =
     h\<lparr>updateSubtitleIndexCalls := updateSubtitleIndexCalls h @ [(mediaId, i)]\<rparr>"

text \<open>\<open>debouncedSave(id, index)\<close> and \<open>debouncedSave.cancel()\<close>.\<close>

definition debouncedSave :: "int \<Rightarrow> int \<Rightarrow> PersistHook \<Rightarrow> PersistHook" where
  "debouncedSave mediaId i h = h\<lparr>pending := Some (mediaId, i, clock h + 500)\<rparr>"

definition debouncedSave_cancel :: "PersistHook \<Rightarrow> PersistHook" where
  "debouncedSave_cancel h = h\<lparr>pending := None\<rparr>"

text \<open>The body of the effect, and the function it returns.\<close>

definition effect :: "int \<Rightarrow> int \<Rightarrow> PersistHook \<Rightarrow> PersistHook" where
  "effect mediaId currentSubtitleIndex' h =
     (if isFirstRenderRef h then h\<lparr>isFirstRenderRef := False, cleanup := None\<rparr>
      else (debouncedSave mediaId currentSubtitleIndex' h)
             \<lparr>cleanup := Some (mediaId, currentSubtitleIndex')\<rparr>)"

definition run_cleanup :: "PersistHook \<Rightarrow> PersistHook" where
  "run_cleanup h =
     (case cleanup h of
        None \<Rightarrow> h
      | Some (mediaId, i) \<Rightarrow>
          (updateSubtitleIndex mediaId i (debouncedSave_cancel h))\<lparr>cleanup := None\<rparr>)"

text \<open>
  React's \<open>useEffect\<close> with the dependencies \<open>[mediaId, currentSubtitleIndex]\<close>: after a
  render whose dependencies differ from those of the last run (and after the first
  render) the function returned by the last run is called, then the effect runs again.
  On unmount the function returned by the last run is called.
\<close>

definition render :: "int \<Rightarrow> int \<Rightarrow> PersistHook \<Rightarrow> PersistHook" where
  "render mediaId currentSubtitleIndex' h =
     (if deps h = Some (mediaId, currentSubtitleIndex') then h
      else effect mediaId currentSubtitleIndex'
             ((run_cleanup h)\<lparr>deps := Some (mediaId, currentSubtitleIndex')\<rparr>))"

definition unmount :: "PersistHook \<Rightarrow> PersistHook" where
  "unmount h = run_cleanup h"

text \<open>\<open>dt\<close> milliseconds pass without a render; a waiting call that falls due is made.\<close>

definition advance :: "nat \<Rightarrow> PersistHook \<Rightarrow> PersistHook" where
  "advance dt h =
     (case pending h of
        None \<Rightarrow> h\<lparr>clock := clock h + dt\<rparr>
      | Some (mediaId, i, due) \<Rightarrow>
          if due \<le> clock h + dt
          then (updateSubtitleIndex mediaId i h)\<lparr>pending := None, clock := clock h + dt\<rparr>
          else h\<lparr>clock := clock h + dt\<rparr>)"

datatype event = Render int int | Advance nat | Unmount

fun run :: "event list \<Rightarrow> PersistHook \<Rightarrow> PersistHook" where
  "run [] h = h"
| "run (Render mediaId i # evs) h = run evs (render mediaId i h)"
| "run (Advance dt # evs) h = run evs (advance dt h)"
| "run (Unmount # evs) h = run evs (unmount h)"

section \<open>Concrete tracks and states\<close>

text \<open>\<open>entry i a b\<close> is an entry whose precise bounds are its display bounds, with the text "a".\<close>

definition entry :: "int \<Rightarrow> real \<Rightarrow> real \<Rightarrow> SubtitleEntry" where
  "entry i a b = \<lparr>index = i, startTime = a, endTime = b, preciseStartTime = a,
                  preciseEndTime = b, text' = [97]\<rparr>"

definition adjacent :: "SubtitleEntry list" where
  "adjacent = [entry 0 0 1000, entry 1 1000 2000]"

definition gapped :: "SubtitleEntry list" where
  "gapped = [entry 0 0 900, entry 1 1000 2000]"

definition overlapping :: "SubtitleEntry list" where
  "overlapping = [entry 0 0 2000, entry 1 1000 3000]"

text \<open>
  The component once the track \<open>es\<close> is loaded and the video is playing from 0: the entry
  objects are at the addresses \<open>0\<close> to \<open>length es - 1\<close>, the \<open>Subtitle\<close> object at the address
  \<open>length es\<close>.
\<close>

definition loaded :: "SubtitleEntry list \<Rightarrow> PlayPage" where
  "loaded es =
     \<lparr>entryObjs = (\<lambda>a. if a < length es then es ! a else entry (- 1) 0 0),
      subtitleObjs = (\<lambda>a. \<lparr>id' = 1, videoId = 7, entries = [0..<length es], createdAt = 0,
                            lastSubtitleIndex = None\<rparr>),
      nextAddr = Suc (length es),
      subtitle = Some (length es),
      currentSubtitleIndex = - 1,
      playMode = CONTINUOUS_PLAY,
      isPlaying = True,
      editMode = False,
      editedTime = \<lparr>startTime' = 0, endTime' = 0\<rparr>,
      editedText = [],
      isSeeking = False,
      recordingMode = False,
      videoRef = Some \<lparr>currentTime = 0, paused = False\<rparr>,
      messages = [],
      updateSubtitleCalls = []\<rparr>"

text \<open>
  An edit session on entry 0 of \<open>[{0,0,1000},{1,1000,2000}]\<close>, with the bounds moved to
  100 and 900 and the text replaced by "b".
\<close>

definition editing :: PlayPage where
  "editing = (loaded adjacent)\<lparr>currentSubtitleIndex := 0, editMode := True,
                editedTime := \<lparr>startTime' = 100, endTime' = 900\<rparr>, editedText := [98]\<rparr>"

text \<open>The same session with a text of a space, a tab and an ideographic space.\<close>

definition blank_edit :: PlayPage where
  "blank_edit = editing\<lparr>editedText := [32, 9, 12288]\<rparr>"

text \<open>
  The track \<open>[{0,0,900},{1,1000,2000}]\<close> with entry 0 current, and the track
  \<open>[{0,0,1000},{1,1000,2000}]\<close> after a scrub (the events \<open>seeking\<close> and \<open>seeked\<close>), once in
  single-pause mode with entry 0 current, once as loaded.
\<close>

definition in_gapped :: PlayPage where
  "in_gapped = (loaded gapped)\<lparr>currentSubtitleIndex := 0\<rparr>"

definition scrubbed_single_pause :: PlayPage where
  "scrubbed_single_pause =
     handleSeeked (handleSeeking
       ((loaded adjacent)\<lparr>currentSubtitleIndex := 0, playMode := SINGLE_PAUSE\<rparr>))"

definition scrubbed :: PlayPage where
  "scrubbed = handleSeeked (handleSeeking (loaded adjacent))"

text \<open>Single-pause mode with entry 0 of \<open>[{0,0,1000},{1,1000,2000}]\<close> current, paused at 1.2 s.\<close>

definition single_pause :: PlayPage where
  "single_pause =
     (loaded adjacent)\<lparr>currentSubtitleIndex := 0, playMode := SINGLE_PAUSE, isPlaying := False,
        videoRef := Some \<lparr>currentTime = 1.2, paused = True\<rparr>\<rparr>"

text \<open>
  An edit session whose buffered start is the double nearest to 61.44 ms.
\<close>

definition fractional :: PlayPage where
  "fractional = editing\<lparr>editedTime :=
     \<lparr>startTime' = 1080863910568919 / 17592186044416, endTime' = 900\<rparr>\<rparr>"

section \<open>Theorems: time-to-index resolution\<close>

declare findSubtitleIndexByTime_loop.simps [simp del]

lemma findIndex_from_none:
  "0 \<le> k \<Longrightarrow> findIndex_from p xs k = - 1 \<Longrightarrow> x \<in> set xs \<Longrightarrow> \<not> p x"
proof (induction xs arbitrary: k)
  case Nil
  then show ?case by simp
next
  case (Cons y ys)
  show ?case
  proof (cases "p y")
    case True
    with Cons.prems show ?thesis by simp
  next
    case False
    with Cons.prems have "findIndex_from p ys (k + 1) = - 1" by simp
    with Cons.IH [of "k + 1"] Cons.prems False show ?thesis by auto
  qed
qed

lemma findIndex_from_all_false:
  "\<forall>x\<in>set xs. \<not> p x \<Longrightarrow> findIndex_from p xs k = - 1"
  by (induction xs arbitrary: k) auto

lemma findIndex_from_found:
  "findIndex_from p xs k \<noteq> - 1 \<Longrightarrow>
     k \<le> findIndex_from p xs k \<and> nat (findIndex_from p xs k - k) < length xs \<and>
     p (xs ! nat (findIndex_from p xs k - k)) \<and>
     (\<forall>j < nat (findIndex_from p xs k - k). \<not> p (xs ! j))"
proof (induction xs arbitrary: k)
  case Nil
  then show ?case by simp
next
  case (Cons y ys)
  show ?case
  proof (cases "p y")
    case True
    then show ?thesis by simp
  next
    case False
    let ?r = "findIndex_from p ys (k + 1)"
    from False Cons.prems have r: "?r \<noteq> - 1" by simp
    from Cons.IH [OF r] have ih: "k + 1 \<le> ?r" "nat (?r - (k + 1)) < length ys"
      "p (ys ! nat (?r - (k + 1)))" "\<forall>j < nat (?r - (k + 1)). \<not> p (ys ! j)" by auto
    have eq: "nat (?r - k) = Suc (nat (?r - (k + 1)))" using ih(1) by linarith
    have "\<forall>j < nat (?r - k). \<not> p ((y # ys) ! j)"
    proof (intro allI impI)
      fix j assume "j < nat (?r - k)"
      then show "\<not> p ((y # ys) ! j)" using False ih(4) eq by (cases j) auto
    qed
    with False ih eq show ?thesis by simp
  qed
qed

lemma findIndex_none_iff:
  "findIndex p xs = - 1 \<longleftrightarrow> (\<forall>i < length xs. \<not> p (xs ! i))"
proof
  assume "findIndex p xs = - 1"
  then have "\<forall>x\<in>set xs. \<not> p x"
    using findIndex_from_none [of 0 p xs] by (auto simp: findIndex_def)
  then show "\<forall>i < length xs. \<not> p (xs ! i)" by simp
next
  assume "\<forall>i < length xs. \<not> p (xs ! i)"
  then have "\<forall>x\<in>set xs. \<not> p x" by (auto simp: in_set_conv_nth)
  then show "findIndex p xs = - 1" by (simp add: findIndex_def findIndex_from_all_false)
qed

lemma findIndex_found:
  "findIndex p xs \<noteq> - 1 \<Longrightarrow>
     0 \<le> findIndex p xs \<and> nat (findIndex p xs) < length xs \<and>
     p (xs ! nat (findIndex p xs)) \<and> (\<forall>j < nat (findIndex p xs). \<not> p (xs ! j))"
  using findIndex_from_found [of p xs 0] by (simp add: findIndex_def)

lemma sorted_startTime_mono:
  assumes "sorted (map startTime es)" "0 \<le> i" "i \<le> j" "j < int (length es)"
  shows "startTime (es ! nat i) \<le> startTime (es ! nat j)"
proof -
  have "nat i \<le> nat j" "nat j < length (map startTime es)" using assms by auto
  with assms(1) have "map startTime es ! nat i \<le> map startTime es ! nat j"
    by (rule sorted_nth_mono)
  then show ?thesis using assms by simp
qed

lemma loop_next:
  assumes srt: "sorted (map startTime es)"
  shows "0 \<le> left \<Longrightarrow> right < int (length es) \<Longrightarrow> left \<le> right + 1 \<Longrightarrow>
    (\<forall>i. 0 \<le> i \<and> i < left \<longrightarrow> startTime (es ! nat i) \<le> t) \<Longrightarrow>
    (\<forall>i. right < i \<and> i < int (length es) \<longrightarrow> t < startTime (es ! nat i)) \<Longrightarrow>
    result = (if right + 1 < int (length es) then right + 1 else - 1) \<Longrightarrow>
    \<exists>r. findSubtitleIndexByTime_loop es t Next left right result = Inr r \<and>
        ((r = - 1 \<and> (\<forall>i. 0 \<le> i \<and> i < int (length es) \<longrightarrow> startTime (es ! nat i) \<le> t)) \<or>
         (0 \<le> r \<and> r < int (length es) \<and> t < startTime (es ! nat r) \<and>
          (\<forall>i. 0 \<le> i \<and> i < r \<longrightarrow> startTime (es ! nat i) \<le> t)))"
proof (induction "nat (right - left + 1)" arbitrary: left right result rule: less_induct)
  case less
  let ?mid = "(left + right) div 2"
  show ?case
  proof (cases "left \<le> right")
    case False
    with less.prems have eq: "left = right + 1" by simp
    have run: "findSubtitleIndexByTime_loop es t Next left right result = Inr result"
      using False by (subst findSubtitleIndexByTime_loop.simps) simp
    show ?thesis
    proof (cases "right + 1 < int (length es)")
      case True
      with less.prems eq have "result = left" by simp
      with run less.prems True eq show ?thesis by auto
    next
      case False
      with less.prems eq have "result = - 1" "left = int (length es)" by auto
      with run less.prems show ?thesis by auto
    qed
  next
    case True
    with less.prems have mid: "left \<le> ?mid" "?mid \<le> right" "0 \<le> ?mid" "?mid < int (length es)"
      by auto
    show ?thesis
    proof (cases "t < startTime (es ! nat ?mid)")
      case gt: True
      have step: "findSubtitleIndexByTime_loop es t Next left right result
          = findSubtitleIndexByTime_loop es t Next left (?mid - 1) ?mid"
        using True mid gt by (subst findSubtitleIndexByTime_loop.simps) simp
      have inv: "\<forall>i. ?mid - 1 < i \<and> i < int (length es) \<longrightarrow> t < startTime (es ! nat i)"
      proof (intro allI impI)
        fix i assume "?mid - 1 < i \<and> i < int (length es)"
        then have "startTime (es ! nat ?mid) \<le> startTime (es ! nat i)"
          using sorted_startTime_mono [OF srt, of ?mid i] mid by auto
        with gt show "t < startTime (es ! nat i)" by simp
      qed
      have "nat (?mid - 1 - left + 1) < nat (right - left + 1)" using mid True by auto
      from less.hyps [OF this, of ?mid] less.prems mid inv step show ?thesis by auto
    next
      case le: False
      have step: "findSubtitleIndexByTime_loop es t Next left right result
          = findSubtitleIndexByTime_loop es t Next (?mid + 1) right result"
        using True mid le by (subst findSubtitleIndexByTime_loop.simps) simp
      have inv: "\<forall>i. 0 \<le> i \<and> i < ?mid + 1 \<longrightarrow> startTime (es ! nat i) \<le> t"
      proof (intro allI impI)
        fix i assume "0 \<le> i \<and> i < ?mid + 1"
        then have "startTime (es ! nat i) \<le> startTime (es ! nat ?mid)"
          using sorted_startTime_mono [OF srt, of i ?mid] mid by auto
        with le show "startTime (es ! nat i) \<le> t" by simp
      qed
      have "nat (right - (?mid + 1) + 1) < nat (right - left + 1)" using mid True by auto
      from less.hyps [OF this, of result] less.prems mid inv step show ?thesis by auto
    qed
  qed
qed

lemma loop_previous:
  assumes srt: "sorted (map startTime es)"
  shows "0 \<le> left \<Longrightarrow> right < int (length es) \<Longrightarrow> left \<le> right + 1 \<Longrightarrow>
    (\<forall>i. 0 \<le> i \<and> i < left \<longrightarrow> startTime (es ! nat i) < t) \<Longrightarrow>
    (\<forall>i. right < i \<and> i < int (length es) \<longrightarrow> t \<le> startTime (es ! nat i)) \<Longrightarrow>
    result = left - 1 \<Longrightarrow>
    \<exists>r. findSubtitleIndexByTime_loop es t Previous left right result = Inr r \<and>
        ((r = - 1 \<and> (\<forall>i. 0 \<le> i \<and> i < int (length es) \<longrightarrow> t \<le> startTime (es ! nat i))) \<or>
         (0 \<le> r \<and> r < int (length es) \<and> startTime (es ! nat r) < t \<and>
          (\<forall>i. r < i \<and> i < int (length es) \<longrightarrow> t \<le> startTime (es ! nat i))))"
proof (induction "nat (right - left + 1)" arbitrary: left right result rule: less_induct)
  case less
  let ?mid = "(left + right) div 2"
  show ?case
  proof (cases "left \<le> right")
    case False
    with less.prems have eq: "left = right + 1" by simp
    have run: "findSubtitleIndexByTime_loop es t Previous left right result = Inr result"
      using False by (subst findSubtitleIndexByTime_loop.simps) simp
    show ?thesis
    proof (cases "left = 0")
      case True
      with less.prems eq have "result = - 1" "right = - 1" by auto
      with run less.prems show ?thesis by auto
    next
      case False
      with less.prems eq have "result = right" "0 \<le> right" by auto
      with run less.prems eq show ?thesis by auto
    qed
  next
    case True
    with less.prems have mid: "left \<le> ?mid" "?mid \<le> right" "0 \<le> ?mid" "?mid < int (length es)"
      by auto
    show ?thesis
    proof (cases "startTime (es ! nat ?mid) < t")
      case lt: True
      have step: "findSubtitleIndexByTime_loop es t Previous left right result
          = findSubtitleIndexByTime_loop es t Previous (?mid + 1) right ?mid"
        using True mid lt by (subst findSubtitleIndexByTime_loop.simps) simp
      have inv: "\<forall>i. 0 \<le> i \<and> i < ?mid + 1 \<longrightarrow> startTime (es ! nat i) < t"
      proof (intro allI impI)
        fix i assume "0 \<le> i \<and> i < ?mid + 1"
        then have "startTime (es ! nat i) \<le> startTime (es ! nat ?mid)"
          using sorted_startTime_mono [OF srt, of i ?mid] mid by auto
        with lt show "startTime (es ! nat i) < t" by simp
      qed
      have "nat (right - (?mid + 1) + 1) < nat (right - left + 1)" using mid True by auto
      from less.hyps [OF this, of ?mid] less.prems mid inv step show ?thesis by auto
    next
      case ge: False
      have step: "findSubtitleIndexByTime_loop es t Previous left right result
          = findSubtitleIndexByTime_loop es t Previous left (?mid - 1) result"
        using True mid ge by (subst findSubtitleIndexByTime_loop.simps) simp
      have inv: "\<forall>i. ?mid - 1 < i \<and> i < int (length es) \<longrightarrow> t \<le> startTime (es ! nat i)"
      proof (intro allI impI)
        fix i assume "?mid - 1 < i \<and> i < int (length es)"
        then have "startTime (es ! nat ?mid) \<le> startTime (es ! nat i)"
          using sorted_startTime_mono [OF srt, of ?mid i] mid by auto
        with ge show "t \<le> startTime (es ! nat i)" by simp
      qed
      have "nat (?mid - 1 - left + 1) < nat (right - left + 1)" using mid True by auto
      from less.hyps [OF this, of result] less.prems mid inv step show ?thesis by auto
    qed
  qed
qed

lemma int_index_all:
  "(\<forall>i. 0 \<le> i \<and> i < int n \<longrightarrow> P (nat i)) \<longleftrightarrow> (\<forall>i<n. P i)"
proof
  assume a: "\<forall>i. 0 \<le> i \<and> i < int n \<longrightarrow> P (nat i)"
  show "\<forall>i<n. P i"
  proof (intro allI impI)
    fix i assume "i < n"
    with a have "P (nat (int i))" by (metis of_nat_0_le_iff of_nat_less_iff)
    then show "P i" by simp
  qed
next
  assume a: "\<forall>i<n. P i"
  show "\<forall>i. 0 \<le> i \<and> i < int n \<longrightarrow> P (nat i)"
  proof (intro allI impI)
    fix i :: int assume "0 \<le> i \<and> i < int n"
    then have "nat i < n" by linarith
    with a show "P (nat i)" by blast
  qed
qed

lemma next_correct:
  assumes srt: "sorted (map startTime es)"
  shows "\<exists>r. findSubtitleIndexByTime es t Next = Inr r \<and>
        ((r = - 1 \<and> (\<forall>i<length es. startTime (es ! i) \<le> t)) \<or>
         (0 \<le> r \<and> nat r < length es \<and> t < startTime (es ! nat r) \<and>
          (\<forall>i<nat r. startTime (es ! i) \<le> t)))"
proof -
  have "\<exists>r. findSubtitleIndexByTime_loop es t Next 0 (int (length es) - 1) (- 1) = Inr r \<and>
        ((r = - 1 \<and> (\<forall>i. 0 \<le> i \<and> i < int (length es) \<longrightarrow> startTime (es ! nat i) \<le> t)) \<or>
         (0 \<le> r \<and> r < int (length es) \<and> t < startTime (es ! nat r) \<and>
          (\<forall>i. 0 \<le> i \<and> i < r \<longrightarrow> startTime (es ! nat i) \<le> t)))"
    by (rule loop_next [OF srt]) simp_all
  then obtain r where r: "findSubtitleIndexByTime es t Next = Inr r"
    and c: "(r = - 1 \<and> (\<forall>i. 0 \<le> i \<and> i < int (length es) \<longrightarrow> startTime (es ! nat i) \<le> t)) \<or>
         (0 \<le> r \<and> r < int (length es) \<and> t < startTime (es ! nat r) \<and>
          (\<forall>i. 0 \<le> i \<and> i < r \<longrightarrow> startTime (es ! nat i) \<le> t))"
    unfolding findSubtitleIndexByTime_def by blast
  from c show ?thesis
  proof
    assume a: "r = - 1 \<and> (\<forall>i. 0 \<le> i \<and> i < int (length es) \<longrightarrow> startTime (es ! nat i) \<le> t)"
    then have "\<forall>i<length es. startTime (es ! i) \<le> t"
      using int_index_all [of "length es" "\<lambda>i. startTime (es ! i) \<le> t"] by blast
    with a r show ?thesis by blast
  next
    assume a: "0 \<le> r \<and> r < int (length es) \<and> t < startTime (es ! nat r) \<and>
          (\<forall>i. 0 \<le> i \<and> i < r \<longrightarrow> startTime (es ! nat i) \<le> t)"
    then have "\<forall>i. 0 \<le> i \<and> i < int (nat r) \<longrightarrow> startTime (es ! nat i) \<le> t" by simp
    then have "\<forall>i<nat r. startTime (es ! i) \<le> t"
      using int_index_all [of "nat r" "\<lambda>i. startTime (es ! i) \<le> t"] by blast
    moreover have "nat r < length es" using a by linarith
    ultimately show ?thesis using a r by blast
  qed
qed

lemma previous_correct:
  assumes srt: "sorted (map startTime es)"
  shows "\<exists>r. findSubtitleIndexByTime es t Previous = Inr r \<and>
        ((r = - 1 \<and> (\<forall>i<length es. t \<le> startTime (es ! i))) \<or>
         (0 \<le> r \<and> nat r < length es \<and> startTime (es ! nat r) < t \<and>
          (\<forall>i<length es. nat r < i \<longrightarrow> t \<le> startTime (es ! i))))"
proof -
  have "\<exists>r. findSubtitleIndexByTime_loop es t Previous 0 (int (length es) - 1) (- 1) = Inr r \<and>
        ((r = - 1 \<and> (\<forall>i. 0 \<le> i \<and> i < int (length es) \<longrightarrow> t \<le> startTime (es ! nat i))) \<or>
         (0 \<le> r \<and> r < int (length es) \<and> startTime (es ! nat r) < t \<and>
          (\<forall>i. r < i \<and> i < int (length es) \<longrightarrow> t \<le> startTime (es ! nat i))))"
    by (rule loop_previous [OF srt]) simp_all
  then obtain r where r: "findSubtitleIndexByTime es t Previous = Inr r"
    and c: "(r = - 1 \<and> (\<forall>i. 0 \<le> i \<and> i < int (length es) \<longrightarrow> t \<le> startTime (es ! nat i))) \<or>
         (0 \<le> r \<and> r < int (length es) \<and> startTime (es ! nat r) < t \<and>
          (\<forall>i. r < i \<and> i < int (length es) \<longrightarrow> t \<le> startTime (es ! nat i)))"
    unfolding findSubtitleIndexByTime_def by blast
  from c show ?thesis
  proof
    assume a: "r = - 1 \<and> (\<forall>i. 0 \<le> i \<and> i < int (length es) \<longrightarrow> t \<le> startTime (es ! nat i))"
    then have "\<forall>i<length es. t \<le> startTime (es ! i)"
      using int_index_all [of "length es" "\<lambda>i. t \<le> startTime (es ! i)"] by blast
    with a r show ?thesis by blast
  next
    assume a: "0 \<le> r \<and> r < int (length es) \<and> startTime (es ! nat r) < t \<and>
          (\<forall>i. r < i \<and> i < int (length es) \<longrightarrow> t \<le> startTime (es ! nat i))"
    have "\<forall>i<length es. nat r < i \<longrightarrow> t \<le> startTime (es ! i)"
    proof (intro allI impI)
      fix i assume "i < length es" "nat r < i"
      then have "r < int i \<and> int i < int (length es)" by linarith
      with a have "t \<le> startTime (es ! nat (int i))" by blast
      then show "t \<le> startTime (es ! i)" by simp
    qed
    moreover have "nat r < length es" using a by linarith
    ultimately show ?thesis using a r by blast
  qed
qed

lemma containing_unique_when_disjoint:
  assumes dis: "\<forall>i j. i < j \<and> j < length es \<longrightarrow> endTime (es ! i) \<le> startTime (es ! j)"
    and i: "i < length es" and c: "entryContains t (es ! i)"
  shows "findIndex (entryContains t) es = int i"
proof -
  let ?r = "findIndex (entryContains t) es"
  from i c have "?r \<noteq> - 1" by (auto simp: findIndex_none_iff)
  from findIndex_found [OF this]
  have r: "0 \<le> ?r" "nat ?r < length es" "entryContains t (es ! nat ?r)"
    "\<forall>j < nat ?r. \<not> entryContains t (es ! j)" by auto
  have "\<not> i < nat ?r" using r(4) c by blast
  moreover have "\<not> nat ?r < i"
  proof
    assume "nat ?r < i"
    with dis i have "endTime (es ! nat ?r) \<le> startTime (es ! i)" by blast
    with r(3) c show False by (simp add: entryContains_def)
  qed
  ultimately have "nat ?r = i" by linarith
  with r(1) show ?thesis by linarith
qed

text \<open>
  C3, as amended. For every track and every time \<open>t\<close>, the containment scan returns the
  least index \<open>i\<close> with \<open>entries[i].startTime <= t < entries[i].endTime\<close>, and \<open>-1\<close> exactly
  when no entry contains \<open>t\<close>. When no entry ends after a later entry starts, the index
  returned is the only one whose entry contains \<open>t\<close>. The bounds are half-open: an
  entry does not contain its own \<open>endTime\<close>.
\<close>

theorem containment_scan_least_index:
  "(findIndex (entryContains t) es = - 1 \<longleftrightarrow> (\<forall>i<length es. \<not> entryContains t (es ! i))) \<and>
   (findIndex (entryContains t) es \<noteq> - 1 \<longrightarrow>
      0 \<le> findIndex (entryContains t) es \<and>
      nat (findIndex (entryContains t) es) < length es \<and>
      entryContains t (es ! nat (findIndex (entryContains t) es)) \<and>
      (\<forall>j < nat (findIndex (entryContains t) es). \<not> entryContains t (es ! j))) \<and>
   ((\<forall>i j. i < j \<and> j < length es \<longrightarrow> endTime (es ! i) \<le> startTime (es ! j)) \<longrightarrow>
      (\<forall>i<length es. entryContains t (es ! i) \<longrightarrow> findIndex (entryContains t) es = int i)) \<and>
   \<not> entryContains (endTime e) e"
proof (intro conjI)
  show "findIndex (entryContains t) es = - 1 \<longleftrightarrow> (\<forall>i<length es. \<not> entryContains t (es ! i))"
    by (rule findIndex_none_iff)
  show "findIndex (entryContains t) es \<noteq> - 1 \<longrightarrow>
      0 \<le> findIndex (entryContains t) es \<and>
      nat (findIndex (entryContains t) es) < length es \<and>
      entryContains t (es ! nat (findIndex (entryContains t) es)) \<and>
      (\<forall>j < nat (findIndex (entryContains t) es). \<not> entryContains t (es ! j))"
    using findIndex_found [of "entryContains t" es] by blast
  show "(\<forall>i j. i < j \<and> j < length es \<longrightarrow> endTime (es ! i) \<le> startTime (es ! j)) \<longrightarrow>
      (\<forall>i<length es. entryContains t (es ! i) \<longrightarrow> findIndex (entryContains t) es = int i)"
    using containing_unique_when_disjoint [of es _ t] by blast
  show "\<not> entryContains (endTime e) e" by (simp add: entryContains_def)
qed

text \<open>
  The scenario of the specification: in the track \<open>[{0,0,1000},{1,1000,2000}]\<close> the scan
  returns 1 at 1500, and \<open>-1\<close> at 2000, the \<open>endTime\<close> of the last entry.
\<close>

theorem containment_scan_least_index_witness:
  "findIndex (entryContains 1500) adjacent = 1 \<and>
   \<not> entryContains 1500 (adjacent ! 0) \<and>
   entryContains 1500 (adjacent ! 1) \<and>
   \<not> entryContains 2000 (adjacent ! 1) \<and>
   findIndex (entryContains 2000) adjacent = - 1"
proof -
  have len: "length adjacent = Suc (Suc 0)" by (simp add: adjacent_def)
  have c: "entryContains 1500 (adjacent ! 1)" "\<not> entryContains 1500 (adjacent ! 0)"
    "\<not> entryContains 2000 (adjacent ! 0)" "\<not> entryContains 2000 (adjacent ! 1)"
    by (simp_all add: adjacent_def entry_def entryContains_def)
  have all: "\<forall>i<length adjacent. \<not> entryContains 2000 (adjacent ! i)"
    using c by (simp add: len All_less_Suc)
  have dis: "\<forall>i j. i < j \<and> j < length adjacent \<longrightarrow> endTime (adjacent ! i) \<le> startTime (adjacent ! j)"
  proof (intro allI impI)
    fix i j :: nat assume "i < j \<and> j < length adjacent"
    then have "i = 0 \<and> j = Suc 0" unfolding len by linarith
    then show "endTime (adjacent ! i) \<le> startTime (adjacent ! j)"
      by (simp add: adjacent_def entry_def)
  qed
  have "(\<forall>i j. i < j \<and> j < length adjacent \<longrightarrow> endTime (adjacent ! i) \<le> startTime (adjacent ! j)) \<longrightarrow>
      (\<forall>i<length adjacent. entryContains 1500 (adjacent ! i) \<longrightarrow> findIndex (entryContains 1500) adjacent = int i)"
    using containment_scan_least_index [of 1500 adjacent "adjacent ! 1"] by blast
  with dis have "\<forall>i<length adjacent. entryContains 1500 (adjacent ! i) \<longrightarrow> findIndex (entryContains 1500) adjacent = int i"
    by blast
  then have "Suc 0 < length adjacent \<longrightarrow> entryContains 1500 (adjacent ! Suc 0) \<longrightarrow>
      findIndex (entryContains 1500) adjacent = int (Suc 0)"
    by blast
  with c len have r1: "findIndex (entryContains 1500) adjacent = 1" by simp
  have "findIndex (entryContains 2000) adjacent = - 1 \<longleftrightarrow> (\<forall>i<length adjacent. \<not> entryContains 2000 (adjacent ! i))"
    using containment_scan_least_index [of 2000 adjacent "adjacent ! 1"] by blast
  with all have r2: "findIndex (entryContains 2000) adjacent = - 1" by blast
  from r1 r2 c show ?thesis by simp
qed

text \<open>
  C3, as stated, says the index returned is the unique one. A track sorted by
  \<open>startTime\<close> may hold entries that overlap: in \<open>[{0,0,2000},{1,1000,3000}]\<close> both
  entries contain 1500, the scan returns 0, and no index is the unique one.
\<close>

theorem containment_scan_unique_counterexample:
  "sorted (map startTime overlapping) \<and>
   findIndex (entryContains 1500) overlapping = 0 \<and>
   entryContains 1500 (overlapping ! 0) \<and>
   entryContains 1500 (overlapping ! 1) \<and>
   \<not> (\<exists>!i. i < length overlapping \<and> entryContains 1500 (overlapping ! i))"
proof -
  have a: "entryContains 1500 (overlapping ! 0)" "entryContains 1500 (overlapping ! 1)"
    "(0::nat) < length overlapping" "(1::nat) < length overlapping"
    by (simp_all add: overlapping_def entry_def entryContains_def)
  have "\<not> (\<exists>!i. i < length overlapping \<and> entryContains 1500 (overlapping ! i))"
  proof
    assume "\<exists>!i. i < length overlapping \<and> entryContains 1500 (overlapping ! i)"
    with a have "(0::nat) = 1" by (metis (no_types))
    then show False by simp
  qed
  moreover have "sorted (map startTime overlapping)"
    "findIndex (entryContains 1500) overlapping = 0"
    by (simp_all add: overlapping_def entry_def entryContains_def findIndex_def)
  ultimately show ?thesis using a by simp
qed

lemma before_first:
  assumes srt: "sorted (map startTime es)" and ne: "es \<noteq> []" and lt: "t < startTime (hd es)"
  shows "findSubtitleIndexByTime es t Next = Inr 0 \<and> findSubtitleIndexByTime es t Previous = Inr (- 1)"
proof -
  have len: "0 < length es" using ne by simp
  have hd0: "startTime (es ! 0) = startTime (hd es)" using ne by (simp add: hd_conv_nth)
  have all: "\<forall>i<length es. t < startTime (es ! i)"
  proof (intro allI impI)
    fix i assume i: "i < length es"
    have "startTime (es ! nat 0) \<le> startTime (es ! nat (int i))"
      by (rule sorted_startTime_mono [OF srt]) (use i in auto)
    with hd0 lt show "t < startTime (es ! i)" by simp
  qed
  from next_correct [OF srt, of t] obtain r where
    r: "findSubtitleIndexByTime es t Next = Inr r" and
    c: "(r = - 1 \<and> (\<forall>i<length es. startTime (es ! i) \<le> t)) \<or>
         (0 \<le> r \<and> nat r < length es \<and> t < startTime (es ! nat r) \<and>
          (\<forall>i<nat r. startTime (es ! i) \<le> t))" by blast
  have "r = 0"
  proof (rule ccontr)
    assume "r \<noteq> 0"
    with c have "(\<forall>i<length es. startTime (es ! i) \<le> t) \<or> (0 < nat r \<and> nat r < length es \<and> (\<forall>i<nat r. startTime (es ! i) \<le> t))"
      by auto
    then have "startTime (es ! 0) \<le> t" using len by auto
    with all len show False by force
  qed
  from previous_correct [OF srt, of t] obtain p where
    p: "findSubtitleIndexByTime es t Previous = Inr p" and
    d: "(p = - 1 \<and> (\<forall>i<length es. t \<le> startTime (es ! i))) \<or>
         (0 \<le> p \<and> nat p < length es \<and> startTime (es ! nat p) < t \<and>
          (\<forall>i<length es. nat p < i \<longrightarrow> t \<le> startTime (es ! i)))" by blast
  have "p = - 1"
  proof (rule ccontr)
    assume "p \<noteq> - 1"
    with d have "nat p < length es \<and> startTime (es ! nat p) < t" by auto
    with all show False by force
  qed
  with p r \<open>r = 0\<close> show ?thesis by simp
qed

lemma after_last:
  assumes srt: "sorted (map startTime es)" and ne: "es \<noteq> []" and lt: "startTime (last es) < t"
  shows "findSubtitleIndexByTime es t Next = Inr (- 1) \<and>
         findSubtitleIndexByTime es t Previous = Inr (int (length es) - 1)"
proof -
  have len: "0 < length es" using ne by simp
  have lst: "startTime (es ! (length es - 1)) = startTime (last es)" using ne by (simp add: last_conv_nth)
  have all: "\<forall>i<length es. startTime (es ! i) < t"
  proof (intro allI impI)
    fix i assume i: "i < length es"
    have "startTime (es ! nat (int i)) \<le> startTime (es ! nat (int (length es - 1)))"
      by (rule sorted_startTime_mono [OF srt]) (use i in auto)
    with lst lt show "startTime (es ! i) < t" by simp
  qed
  from next_correct [OF srt, of t] obtain r where
    r: "findSubtitleIndexByTime es t Next = Inr r" and
    c: "(r = - 1 \<and> (\<forall>i<length es. startTime (es ! i) \<le> t)) \<or>
         (0 \<le> r \<and> nat r < length es \<and> t < startTime (es ! nat r) \<and>
          (\<forall>i<nat r. startTime (es ! i) \<le> t))" by blast
  have "r = - 1"
  proof (rule ccontr)
    assume "r \<noteq> - 1"
    with c have "nat r < length es \<and> t < startTime (es ! nat r)" by auto
    with all show False by force
  qed
  from previous_correct [OF srt, of t] obtain p where
    p: "findSubtitleIndexByTime es t Previous = Inr p" and
    d: "(p = - 1 \<and> (\<forall>i<length es. t \<le> startTime (es ! i))) \<or>
         (0 \<le> p \<and> nat p < length es \<and> startTime (es ! nat p) < t \<and>
          (\<forall>i<length es. nat p < i \<longrightarrow> t \<le> startTime (es ! i)))" by blast
  have "p = int (length es) - 1"
  proof (rule ccontr)
    assume np: "p \<noteq> int (length es) - 1"
    from d have "t \<le> startTime (es ! (length es - 1))"
    proof
      assume "p = - 1 \<and> (\<forall>i<length es. t \<le> startTime (es ! i))"
      then show ?thesis using len by simp
    next
      assume a: "0 \<le> p \<and> nat p < length es \<and> startTime (es ! nat p) < t \<and>
          (\<forall>i<length es. nat p < i \<longrightarrow> t \<le> startTime (es ! i))"
      with np have "nat p < length es - 1" by linarith
      with a len show ?thesis by simp
    qed
    moreover have "startTime (es ! (length es - 1)) < t" using all len by simp
    ultimately show False by simp
  qed
  with p r \<open>r = - 1\<close> show ?thesis by simp
qed

lemma empty_track: "findSubtitleIndexByTime [] t dir = Inr (- 1)"
  unfolding findSubtitleIndexByTime_def
  by (subst findSubtitleIndexByTime_loop.simps) simp

text \<open>
  C6. For every track sorted ascending by \<open>startTime\<close> and every time \<open>t\<close>, the binary
  search returns without an exception. On the empty track both directions return \<open>-1\<close>.
  Forward, the result is the least index whose \<open>startTime\<close> is greater than \<open>t\<close>, and \<open>-1\<close>
  when there is none; backward, it is the greatest index whose \<open>startTime\<close> is less than
  \<open>t\<close>, and \<open>-1\<close> when there is none. When \<open>t\<close> is less than the first \<open>startTime\<close>, forward
  returns 0 and backward \<open>-1\<close>; when \<open>t\<close> is greater than the last \<open>startTime\<close>, forward
  returns \<open>-1\<close> and backward the last index.
\<close>

theorem directional_search_correct:
  "sorted (map startTime es) \<Longrightarrow>
    findSubtitleIndexByTime [] t dir = Inr (- 1) \<and>
    (\<exists>r. findSubtitleIndexByTime es t Next = Inr r \<and>
        ((r = - 1 \<and> (\<forall>i<length es. startTime (es ! i) \<le> t)) \<or>
         (0 \<le> r \<and> nat r < length es \<and> t < startTime (es ! nat r) \<and>
          (\<forall>i<nat r. startTime (es ! i) \<le> t)))) \<and>
    (\<exists>r. findSubtitleIndexByTime es t Previous = Inr r \<and>
        ((r = - 1 \<and> (\<forall>i<length es. t \<le> startTime (es ! i))) \<or>
         (0 \<le> r \<and> nat r < length es \<and> startTime (es ! nat r) < t \<and>
          (\<forall>i<length es. nat r < i \<longrightarrow> t \<le> startTime (es ! i))))) \<and>
    (es \<noteq> [] \<and> t < startTime (hd es) \<longrightarrow>
       findSubtitleIndexByTime es t Next = Inr 0 \<and>
       findSubtitleIndexByTime es t Previous = Inr (- 1)) \<and>
    (es \<noteq> [] \<and> startTime (last es) < t \<longrightarrow>
       findSubtitleIndexByTime es t Next = Inr (- 1) \<and>
       findSubtitleIndexByTime es t Previous = Inr (int (length es) - 1))"
  using empty_track next_correct previous_correct before_first after_last by blast

text \<open>
  In the track \<open>[{0,0,1000},{1,1000,2000}]\<close>: before the first entry, at \<open>-5\<close>, and after
  the last \<open>startTime\<close>, at 1500.
\<close>

theorem directional_search_correct_witness:
  "sorted (map startTime adjacent) \<and>
   findSubtitleIndexByTime adjacent (- 5) Next = Inr 0 \<and>
   findSubtitleIndexByTime adjacent (- 5) Previous = Inr (- 1) \<and>
   findSubtitleIndexByTime adjacent 1500 Next = Inr (- 1) \<and>
   findSubtitleIndexByTime adjacent 1500 Previous = Inr 1 \<and>
   findSubtitleIndexByTime [] 1500 Next = Inr (- 1)"
proof -
  have s: "sorted (map startTime adjacent)" by (simp add: adjacent_def entry_def)
  have ne: "adjacent \<noteq> []" "(- 5) < startTime (hd adjacent)" "startTime (last adjacent) < 1500"
    "int (length adjacent) - 1 = 1"
    by (simp_all add: adjacent_def entry_def)
  from directional_search_correct [OF s, of "- 5" Next] directional_search_correct [OF s, of 1500 Next]
    s ne show ?thesis by simp
qed

section \<open>Theorems: rounding to double precision\<close>

lemma pow2_powr: "pow2 e = 2 powr (of_int e)"
proof (cases "0 \<le> e")
  case True
  then have "2 powr (of_int e) = (2::real) powr (real (nat e))" by simp
  also have "\<dots> = 2 ^ nat e" by (simp add: powr_realpow)
  finally show ?thesis using True by (simp add: pow2_def)
next
  case False
  then have "(2::real) powr (of_int e) = 2 powr (- real (nat (- e)))" by simp
  also have "\<dots> = 1 / 2 powr (real (nat (- e)))" by (simp add: powr_minus divide_inverse)
  also have "\<dots> = 1 / 2 ^ nat (- e)" by (simp add: powr_realpow)
  finally show ?thesis using False by (simp add: pow2_def)
qed

lemma pow2_pos: "0 < pow2 e"
  by (simp add: pow2_powr)

lemma pow2_mono: "a \<le> b \<Longrightarrow> pow2 a \<le> pow2 b"
  by (simp add: pow2_powr)

lemma expo_bounds:
  assumes "1 \<le> \<bar>x\<bar>"
  shows "0 \<le> expo x" "pow2 (expo x) \<le> \<bar>x\<bar>" "\<bar>x\<bar> < pow2 (expo x + 1)"
proof -
  let ?n = "nat \<lfloor>\<bar>x\<bar>\<rfloor>"
  let ?k = "floorlog 2 ?n"
  have n: "0 < ?n" using assms by linarith
  from floorlog_bounds [OF n, of 2]
  have b: "2 ^ (?k - 1) \<le> ?n" "?n < 2 ^ ?k" by simp_all
  have k: "0 < ?k" using b(2) n by (cases "?k") simp_all
  have e: "expo x = int ?k - 1" using assms by (simp add: expo_def)
  show "0 \<le> expo x" using e k by simp
  have nk: "nat (int ?k - 1) = ?k - 1" by simp
  have "real (2 ^ (?k - 1)) \<le> real ?n" using b(1) by (rule of_nat_mono)
  also have "real ?n \<le> \<bar>x\<bar>" using assms by linarith
  finally show "pow2 (expo x) \<le> \<bar>x\<bar>" using e k by (simp add: pow2_def nk)
  have "\<bar>x\<bar> < real ?n + 1" by linarith
  also have "real ?n + 1 \<le> real (2 ^ ?k)"
  proof -
    have "Suc ?n \<le> 2 ^ ?k" using b(2) by (rule Suc_leI)
    then have "real (Suc ?n) \<le> real (2 ^ ?k)" by (rule of_nat_mono)
    then show ?thesis by simp
  qed
  finally show "\<bar>x\<bar> < pow2 (expo x + 1)" using e by (simp add: pow2_def)
qed

lemma round_half_even_near: "\<bar>of_int (round_half_even y) - y\<bar> \<le> 1 / 2"
  unfolding round_half_even_def by (auto; linarith)

lemma round_half_even_of_int [simp]: "round_half_even (of_int m) = m"
  by (simp add: round_half_even_def)

lemma js_round_near:
  assumes "1 \<le> \<bar>x\<bar>"
  shows "\<bar>js_round x - x\<bar> \<le> \<bar>x\<bar> / 2"
proof -
  let ?u = "pow2 (expo x - 52)"
  have e: "max (expo x) (- 1022) = expo x" using expo_bounds(1) [OF assms] by simp
  have x0: "x \<noteq> 0" using assms by auto
  have u: "0 < ?u" by (rule pow2_pos)
  have j: "js_round x = of_int (round_half_even (x / ?u)) * ?u" using x0 by (simp add: js_round_def e)
  have "js_round x - x = (of_int (round_half_even (x / ?u)) - x / ?u) * ?u"
    using u by (simp add: j field_simps)
  then have "\<bar>js_round x - x\<bar> = \<bar>of_int (round_half_even (x / ?u)) - x / ?u\<bar> * ?u"
    using u by (simp add: abs_mult)
  also have "\<dots> \<le> (1 / 2) * ?u"
    using round_half_even_near [of "x / ?u"] u by (intro mult_right_mono) simp_all
  also have "?u \<le> pow2 (expo x)" by (rule pow2_mono) simp
  also have "pow2 (expo x) \<le> \<bar>x\<bar>" by (rule expo_bounds(2) [OF assms])
  finally show ?thesis by simp
qed

lemma js_round_large:
  assumes "1 \<le> x"
  shows "x / 2 \<le> js_round x"
proof -
  have "\<bar>js_round x - x\<bar> \<le> \<bar>x\<bar> / 2" by (rule js_round_near) (use assms in simp)
  then have "- (js_round x - x) \<le> \<bar>x\<bar> / 2" by (rule abs_le_D2)
  with assms show ?thesis by simp
qed

lemma js_round_small:
  assumes "x \<le> - 1"
  shows "js_round x \<le> x / 2"
proof -
  have "\<bar>js_round x - x\<bar> \<le> \<bar>x\<bar> / 2" by (rule js_round_near) (use assms in simp)
  then have "js_round x - x \<le> \<bar>x\<bar> / 2" by (rule abs_le_D1)
  with assms show ?thesis by simp
qed

lemma js_round_of_int:
  assumes "\<bar>n\<bar> < 2 ^ 53"
  shows "js_round (of_int n) = of_int n"
proof (cases "n = 0")
  case True
  then show ?thesis by (simp add: js_round_def)
next
  case False
  let ?x = "of_int n :: real"
  have a: "1 \<le> \<bar>?x\<bar>"
  proof -
    have "1 \<le> \<bar>n\<bar>" using False by linarith
    then have "(1::real) \<le> of_int \<bar>n\<bar>" by simp
    then show ?thesis by simp
  qed
  note b = expo_bounds [OF a]
  have "pow2 (expo ?x) < pow2 53"
  proof -
    have "\<bar>?x\<bar> < 2 ^ 53" using assms by (metis of_int_abs of_int_less_numeral_power_cancel_iff)
    with b(2) show ?thesis by (simp add: pow2_def)
  qed
  then have le: "expo ?x \<le> 52" using pow2_mono [of 53 "expo ?x"] by (cases "expo ?x \<le> 52") auto
  let ?m = "nat (52 - expo ?x)"
  have e: "max (expo ?x) (- 1022) = expo ?x" using b(1) by simp
  have u: "pow2 (expo ?x - 52) = 1 / 2 ^ ?m"
  proof (cases "expo ?x = 52")
    case True
    then show ?thesis by (simp add: pow2_def)
  next
    case False
    with le have "expo ?x - 52 < 0" by simp
    then show ?thesis by (simp add: pow2_def)
  qed
  have q: "?x / (1 / 2 ^ ?m) = of_int (n * 2 ^ ?m)" by simp
  have "js_round ?x = of_int (round_half_even (?x / (1 / 2 ^ ?m))) * (1 / 2 ^ ?m)"
    using False by (simp add: js_round_def e u)
  also have "\<dots> = of_int (n * 2 ^ ?m) * (1 / 2 ^ ?m)"
    unfolding q round_half_even_of_int ..
  also have "\<dots> = ?x" by simp
  finally show ?thesis .
qed

section \<open>Theorems: edit session\<close>

lemma trim_empty_iff: "trim str = [] \<longleftrightarrow> (\<forall>c\<in>set str. isWhiteSpace c)"
proof
  assume "trim str = []"
  then have a: "\<forall>c\<in>set (dropWhile isWhiteSpace str). isWhiteSpace c"
    by (simp add: trim_def dropWhile_eq_Nil_conv)
  have "dropWhile isWhiteSpace str = []"
  proof (rule ccontr)
    assume ne: "dropWhile isWhiteSpace str \<noteq> []"
    then have "\<not> isWhiteSpace (hd (dropWhile isWhiteSpace str))" by (rule hd_dropWhile)
    moreover from ne have "hd (dropWhile isWhiteSpace str) \<in> set (dropWhile isWhiteSpace str)"
      by (rule hd_in_set)
    ultimately show False using a by blast
  qed
  then show "\<forall>c\<in>set str. isWhiteSpace c" by (simp add: dropWhile_eq_Nil_conv)
next
  assume "\<forall>c\<in>set str. isWhiteSpace c"
  then have "dropWhile isWhiteSpace str = []" by (simp add: dropWhile_eq_Nil_conv)
  then show "trim str = []" by (simp add: trim_def del: dropWhile_eq_Nil_conv)
qed

lemma entryRefAt_nonneg: "entryRefAt s sub i = Some a \<Longrightarrow> i \<noteq> - 1"
  by (auto simp: entryRefAt_def split: if_splits)

lemma entryRefAt_Some_iff:
  "entryRefAt s sub i = Some a \<longleftrightarrow>
     0 \<le> i \<and> i < int (length (entries (subtitleObjs s sub))) \<and>
     entries (subtitleObjs s sub) ! nat i = a"
  by (auto simp: entryRefAt_def)

lemma save_sync_ok:
  assumes sb: "subtitle s = Some sub"
    and ref: "entryRefAt s sub (currentSubtitleIndex s) = Some a"
    and tx: "trim (editedText s) \<noteq> []"
  shows "handleSaveSubtitleEdit_sync s =
     Awaiting
       (s\<lparr>subtitleObjs := (subtitleObjs s)(nextAddr s := subtitleObjs s sub),
          nextAddr := Suc (nextAddr s),
          entryObjs := (entryObjs s)(a := (entryObjs s a)
              \<lparr>preciseStartTime := startTime' (editedTime s),
               preciseEndTime := endTime' (editedTime s),
               text' := trim (editedText s)\<rparr>),
          updateSubtitleCalls := updateSubtitleCalls s @
            [(subtitleObjs s sub,
              map ((entryObjs s)(a := (entryObjs s a)
                     \<lparr>preciseStartTime := startTime' (editedTime s),
                      preciseEndTime := endTime' (editedTime s),
                      text' := trim (editedText s)\<rparr>))
                  (entries (subtitleObjs s sub)))]\<rparr>)
       (nextAddr s)"
proof -
  have i: "currentSubtitleIndex s \<noteq> - 1" using ref by (rule entryRefAt_nonneg)
  have r: "entryRefAt
      (s\<lparr>subtitleObjs := (subtitleObjs s)(nextAddr s := subtitleObjs s sub),
         nextAddr := Suc (nextAddr s)\<rparr>) (nextAddr s) (currentSubtitleIndex s) = Some a"
    using ref by (simp add: entryRefAt_Some_iff)
  show ?thesis
    unfolding handleSaveSubtitleEdit_sync_def
    using sb i tx r by (simp add: Let_def readEntries_def)
qed

lemma save_ok:
  assumes sb: "subtitle s = Some sub"
    and ref: "entryRefAt s sub (currentSubtitleIndex s) = Some a"
    and tx: "trim (editedText s) \<noteq> []"
  shows "subtitle (handleSaveSubtitleEdit True s) = Some (nextAddr s)"
    "messages (handleSaveSubtitleEdit True s) = messages s @ [message_success]"
    "\<not> editMode (handleSaveSubtitleEdit True s)"
    "entryRefAt (handleSaveSubtitleEdit True s) (nextAddr s) (currentSubtitleIndex s) = Some a"
    "preciseStartTime (entryObjs (handleSaveSubtitleEdit True s) a) = startTime' (editedTime s)"
    "preciseEndTime (entryObjs (handleSaveSubtitleEdit True s) a) = endTime' (editedTime s)"
    "updateSubtitleCalls (handleSaveSubtitleEdit True s) = updateSubtitleCalls s @
       [(subtitleObjs s sub, readEntries (handleSaveSubtitleEdit True s) (nextAddr s))]"
  using ref
  by (simp_all add: handleSaveSubtitleEdit_def save_sync_ok [OF sb ref tx]
      handleSaveSubtitleEdit_resume_def handleExitEditMode_def add_message_def
      entryRefAt_Some_iff readEntries_def)

lemma offset_keeps:
  "subtitle (handleTimeOffset d b f s) = subtitle s"
  "entryRefAt (handleTimeOffset d b f s) sub i = entryRefAt s sub i"
  "editedText (handleTimeOffset d b f s) = editedText s"
  "messages (handleTimeOffset d b f s) = messages s"
  "currentSubtitleIndex (handleTimeOffset d b f s) = currentSubtitleIndex s"
  by (simp_all add: handleTimeOffset_def Let_def entryRefAt_def)

lemmas editing_defs = editing_def loaded_def adjacent_def entry_def

lemma offset_twice:
  "startTime' (editedTime (handleTimeOffset d2 True f2 (handleTimeOffset d1 True f1 s)))
     = js_round (js_round (startTime' (editedTime s) + (if f1 then d1 else - d1))
                 + (if f2 then d2 else - d2))"
  "endTime' (editedTime (handleTimeOffset d2 False f2 (handleTimeOffset d1 False f1 s)))
     = js_round (js_round (endTime' (editedTime s) + (if f1 then d1 else - d1))
                 + (if f2 then d2 else - d2))"
  "endTime' (editedTime (handleTimeOffset d2 True f2 (handleTimeOffset d1 True f1 s)))
     = endTime' (editedTime s)"
  "startTime' (editedTime (handleTimeOffset d2 False f2 (handleTimeOffset d1 False f1 s)))
     = startTime' (editedTime s)"
  by (simp_all add: handleTimeOffset_def Let_def)

lemma js_round_int_sums:
  assumes "\<bar>x + a\<bar> < 2 ^ 53" "\<bar>x + a + b\<bar> < 2 ^ 53"
  shows "js_round (js_round (of_int x + of_int a) + of_int b) = of_int (x + a + b)"
proof -
  have "js_round (of_int x + of_int a) = of_int (x + a)"
    using js_round_of_int [OF assms(1)] by simp
  moreover have "js_round (of_int (x + a) + of_int b) = of_int (x + a + b)"
    using js_round_of_int [OF assms(2)] by simp
  ultimately show ?thesis by simp
qed

text \<open>
  C7, as amended. Each call of \<open>handleTimeOffset\<close> moves the named boundary of
  \<open>editedTime\<close> from the value the buffer holds at that moment, forward by \<open>offset\<close> or back
  by \<open>offset\<close>, stores the sum rounded to double precision, and leaves the other boundary
  alone; two calls on one boundary compound. When the boundary and the two offsets are
  whole numbers of milliseconds and the two sums stay below \<open>2 ^ 53\<close> in magnitude, nothing
  is rounded and the boundary ends at the exact sum: an offset of +500 followed by one of
  -200 (200 backwards, or -200 forwards) leaves a whole-number boundary \<open>X\<close> with
  \<open>\<bar>X\<bar> + 500 < 2 ^ 53\<close> at \<open>X + 300\<close>.
\<close>

theorem offsets_compound:
  "startTime' (editedTime (handleTimeOffset d2 True f2 (handleTimeOffset d1 True f1 s)))
     = js_round (js_round (startTime' (editedTime s) + (if f1 then d1 else - d1))
                 + (if f2 then d2 else - d2)) \<and>
   endTime' (editedTime (handleTimeOffset d2 False f2 (handleTimeOffset d1 False f1 s)))
     = js_round (js_round (endTime' (editedTime s) + (if f1 then d1 else - d1))
                 + (if f2 then d2 else - d2)) \<and>
   endTime' (editedTime (handleTimeOffset d2 True f2 (handleTimeOffset d1 True f1 s)))
     = endTime' (editedTime s) \<and>
   startTime' (editedTime (handleTimeOffset d2 False f2 (handleTimeOffset d1 False f1 s)))
     = startTime' (editedTime s) \<and>
   (\<bar>x + (if f1 then a else - a)\<bar> < 2 ^ 53 \<and>
    \<bar>x + (if f1 then a else - a) + (if f2 then b else - b)\<bar> < 2 ^ 53 \<longrightarrow>
      (startTime' (editedTime s) = of_int x \<longrightarrow>
         startTime' (editedTime (handleTimeOffset (of_int b) True f2
            (handleTimeOffset (of_int a) True f1 s)))
           = of_int x + (if f1 then of_int a else - of_int a)
                      + (if f2 then of_int b else - of_int b)) \<and>
      (endTime' (editedTime s) = of_int x \<longrightarrow>
         endTime' (editedTime (handleTimeOffset (of_int b) False f2
            (handleTimeOffset (of_int a) False f1 s)))
           = of_int x + (if f1 then of_int a else - of_int a)
                      + (if f2 then of_int b else - of_int b))) \<and>
   (\<bar>x\<bar> + 500 < 2 ^ 53 \<longrightarrow>
      (startTime' (editedTime s) = of_int x \<longrightarrow>
         startTime' (editedTime (handleTimeOffset 200 True False
            (handleTimeOffset 500 True True s))) = of_int x + 300 \<and>
         startTime' (editedTime (handleTimeOffset (- 200) True True
            (handleTimeOffset 500 True True s))) = of_int x + 300) \<and>
      (endTime' (editedTime s) = of_int x \<longrightarrow>
         endTime' (editedTime (handleTimeOffset 200 False False
            (handleTimeOffset 500 False True s))) = of_int x + 300 \<and>
         endTime' (editedTime (handleTimeOffset (- 200) False True
            (handleTimeOffset 500 False True s))) = of_int x + 300))"
proof (intro conjI impI)
  show "startTime' (editedTime (handleTimeOffset d2 True f2 (handleTimeOffset d1 True f1 s)))
     = js_round (js_round (startTime' (editedTime s) + (if f1 then d1 else - d1))
                 + (if f2 then d2 else - d2))"
    by (rule offset_twice)
  show "endTime' (editedTime (handleTimeOffset d2 False f2 (handleTimeOffset d1 False f1 s)))
     = js_round (js_round (endTime' (editedTime s) + (if f1 then d1 else - d1))
                 + (if f2 then d2 else - d2))"
    by (rule offset_twice)
  show "endTime' (editedTime (handleTimeOffset d2 True f2 (handleTimeOffset d1 True f1 s)))
     = endTime' (editedTime s)"
    by (rule offset_twice)
  show "startTime' (editedTime (handleTimeOffset d2 False f2 (handleTimeOffset d1 False f1 s)))
     = startTime' (editedTime s)"
    by (rule offset_twice)
next
  assume r: "\<bar>x + (if f1 then a else - a)\<bar> < 2 ^ 53 \<and>
    \<bar>x + (if f1 then a else - a) + (if f2 then b else - b)\<bar> < 2 ^ 53"
  have j: "js_round (js_round (of_int x + of_int (if f1 then a else - a))
              + of_int (if f2 then b else - b))
           = of_int (x + (if f1 then a else - a) + (if f2 then b else - b))"
    using r by (intro js_round_int_sums) simp_all
  have k: "(if f then (of_int c :: real) else - of_int c) = of_int (if f then c else - c)"
    for f c by simp
  show "startTime' (editedTime (handleTimeOffset (of_int b) True f2
            (handleTimeOffset (of_int a) True f1 s)))
           = of_int x + (if f1 then of_int a else - of_int a)
                      + (if f2 then of_int b else - of_int b)"
    if "startTime' (editedTime s) = of_int x"
    unfolding offset_twice that k j by simp
  show "endTime' (editedTime (handleTimeOffset (of_int b) False f2
            (handleTimeOffset (of_int a) False f1 s)))
           = of_int x + (if f1 then of_int a else - of_int a)
                      + (if f2 then of_int b else - of_int b)"
    if "endTime' (editedTime s) = of_int x"
    unfolding offset_twice that k j by simp
next
  assume r: "\<bar>x\<bar> + 500 < 2 ^ 53"
  have j: "js_round (js_round (of_int x + of_int 500) + of_int (- 200)) = of_int (x + 500 + - 200)"
    using r by (intro js_round_int_sums) simp_all
  then have j': "js_round (js_round (of_int x + 500) + - 200) = of_int x + 300"
    "js_round (js_round (of_int x + 500) - 200) = of_int x + 300"
    by simp_all
  {
    assume "startTime' (editedTime s) = of_int x"
    then show "startTime' (editedTime (handleTimeOffset 200 True False
            (handleTimeOffset 500 True True s))) = of_int x + 300"
      and "startTime' (editedTime (handleTimeOffset (- 200) True True
            (handleTimeOffset 500 True True s))) = of_int x + 300"
      by (simp_all add: offset_twice j')
  }
  {
    assume "endTime' (editedTime s) = of_int x"
    then show "endTime' (editedTime (handleTimeOffset 200 False False
            (handleTimeOffset 500 False True s))) = of_int x + 300"
      and "endTime' (editedTime (handleTimeOffset (- 200) False True
            (handleTimeOffset 500 False True s))) = of_int x + 300"
      by (simp_all add: offset_twice j')
  }
qed

text \<open>
  From the whole-number bounds 100 and 900: +500 then -200 leaves the start at 400 and
  the end at 1200.
\<close>

theorem offsets_compound_witness:
  "startTime' (editedTime editing) = 100 \<and> endTime' (editedTime editing) = 900 \<and>
   startTime' (editedTime (handleTimeOffset 200 True False
      (handleTimeOffset 500 True True editing))) = 400 \<and>
   endTime' (editedTime (handleTimeOffset 200 False False
      (handleTimeOffset 500 False True editing))) = 1200 \<and>
   endTime' (editedTime (handleTimeOffset 200 True False
      (handleTimeOffset 500 True True editing))) = 900"
proof -
  have b: "startTime' (editedTime editing) = of_int 100" "endTime' (editedTime editing) = of_int 900"
    "\<bar>100 :: int\<bar> + 500 < 2 ^ 53" "\<bar>900 :: int\<bar> + 500 < 2 ^ 53"
    by (simp_all add: editing_defs)
  from offsets_compound [of 200 False 500 True editing 100 0 0] b(1,3)
  have 1: "startTime' (editedTime (handleTimeOffset 200 True False
      (handleTimeOffset 500 True True editing))) = of_int 100 + 300"
    "endTime' (editedTime (handleTimeOffset 200 True False
      (handleTimeOffset 500 True True editing))) = endTime' (editedTime editing)"
    by blast+
  from offsets_compound [of 200 False 500 True editing 900 0 0] b(2,4)
  have 2: "endTime' (editedTime (handleTimeOffset 200 False False
      (handleTimeOffset 500 False True editing))) = of_int 900 + 300"
    by blast
  show ?thesis unfolding 1 2 by (simp add: editing_defs)
qed

text \<open>
  C7, as stated, promises \<open>X + 300\<close> for every \<open>X\<close>. With the buffered start at the double
  nearest to 61.44, +500 then -200 leaves \<open>794814965486715 / 2199023255552\<close>
  (361.44000000000005), while \<open>X + 300\<close> is \<open>6358519723893719 / 17592186044416\<close> (361.44),
  itself a double; the denominators are \<open>2 ^ 41\<close> and \<open>2 ^ 44\<close>, and the two values differ by
  \<open>1 / 2 ^ 44\<close>.
\<close>

theorem offsets_round_counterexample:
  "js_round (startTime' (editedTime fractional)) = startTime' (editedTime fractional) \<and>
   startTime' (editedTime (handleTimeOffset 200 True False
      (handleTimeOffset 500 True True fractional))) = 794814965486715 / 2199023255552 \<and>
   startTime' (editedTime fractional) + 300 = 6358519723893719 / 17592186044416 \<and>
   js_round (startTime' (editedTime fractional) + 300) = 6358519723893719 / 17592186044416 \<and>
   startTime' (editedTime (handleTimeOffset 200 True False
      (handleTimeOffset 500 True True fractional)))
     \<noteq> startTime' (editedTime fractional) + 300"
proof -
  have x: "startTime' (editedTime fractional) = 1080863910568919 / 17592186044416"
    by (simp add: fractional_def)
  have r1: "js_round (1080863910568919 / 17592186044416) = 1080863910568919 / 17592186044416"
    by code_simp
  have r2: "js_round (js_round (1080863910568919 / 17592186044416 + 500) - 200)
       = 794814965486715 / 2199023255552"
    by code_simp
  have r3: "js_round (1080863910568919 / 17592186044416 + 300)
       = 6358519723893719 / 17592186044416"
    by code_simp
  have r4: "(1080863910568919 / 17592186044416 + 300 :: real)
       = 6358519723893719 / 17592186044416"
    by simp
  have r5: "(794814965486715 / 2199023255552 :: real) \<noteq> 1080863910568919 / 17592186044416 + 300"
    by simp
  have o: "startTime' (editedTime (handleTimeOffset 200 True False
      (handleTimeOffset 500 True True fractional)))
      = js_round (js_round (1080863910568919 / 17592186044416 + 500) - 200)"
    using offset_twice(1) [of 200 False 500 True fractional] by (simp only: x if_True if_False)
       simp
  have c1: "js_round (startTime' (editedTime fractional)) = startTime' (editedTime fractional)"
    by (simp only: x r1)
  have c2: "startTime' (editedTime (handleTimeOffset 200 True False
      (handleTimeOffset 500 True True fractional))) = 794814965486715 / 2199023255552"
    by (simp only: o r2)
  have c3: "startTime' (editedTime fractional) + 300 = 6358519723893719 / 17592186044416"
    by (simp only: x r4)
  have c4: "js_round (startTime' (editedTime fractional) + 300)
      = 6358519723893719 / 17592186044416"
    by (simp only: x r3)
  have c5: "startTime' (editedTime (handleTimeOffset 200 True False
      (handleTimeOffset 500 True True fractional)))
     \<noteq> startTime' (editedTime fractional) + 300"
    unfolding c2 x by (rule r5)
  from c1 c2 c3 c4 c5 show ?thesis by blast
qed

text \<open>
  C8. When the buffered text trims to the empty string, which is when every code unit of
  it is white space, the save handler returns before the \<open>await\<close> and changes nothing but
  the list of messages: with a track loaded and an index resolved it issues the warning,
  and the store, the track reference, \<open>editedTime\<close>, \<open>editedText\<close>, \<open>editMode\<close> and the
  database calls are as before. So a save that reaches the database has a text that
  does not trim to the empty string.
\<close>

theorem save_rejects_blank_text:
  "trim (editedText s) = [] \<Longrightarrow>
     (\<forall>c\<in>set (editedText s). isWhiteSpace c) \<and>
     handleSaveSubtitleEdit_sync s = Returned (handleSaveSubtitleEdit resolved s) \<and>
     handleSaveSubtitleEdit resolved s =
       (if subtitle s = None \<or> currentSubtitleIndex s = - 1 then s
        else s\<lparr>messages := messages s @ [message_warning]\<rparr>)"
  by (auto simp: trim_empty_iff [symmetric] handleSaveSubtitleEdit_def handleSaveSubtitleEdit_sync_def add_message_def
      split: option.splits)

text \<open>
  A session on entry 0 whose text is a space, a tab and an ideographic space: the
  warning is issued, the track still reads \<open>[{0,0,1000},{1,1000,2000}]\<close> and edit mode is
  still on.
\<close>

theorem save_rejects_blank_text_witness:
  "trim (editedText blank_edit) = [] \<and>
   handleSaveSubtitleEdit_sync blank_edit = Returned (blank_edit\<lparr>messages := [message_warning]\<rparr>) \<and>
   handleSaveSubtitleEdit True blank_edit = blank_edit\<lparr>messages := [message_warning]\<rparr> \<and>
   readEntries (handleSaveSubtitleEdit True blank_edit) 2 = adjacent \<and>
   editMode (handleSaveSubtitleEdit True blank_edit)"
proof -
  have t: "trim (editedText blank_edit) = []"
    by (simp add: blank_edit_def trim_def isWhiteSpace_def)
  have g: "subtitle blank_edit = Some 2" "currentSubtitleIndex blank_edit = 0" "messages blank_edit = []"
    "editMode blank_edit" "readEntries blank_edit 2 = adjacent"
    by (simp_all add: blank_edit_def editing_def loaded_def adjacent_def readEntries_def upt_rec)
  from save_rejects_blank_text [OF t, of True] t g show ?thesis
    by (simp add: readEntries_def)
qed

text \<open>
  C10. With a track loaded, an index inside the track and a text that does not trim to
  the empty string, a save whose database call is fulfilled succeeds, whatever the
  buffer holds: the entry gets \<open>preciseStartTime\<close> and \<open>preciseEndTime\<close> of the buffer as
  they are, and so does the track handed to the database. \<open>handleTimeOffset\<close> applies any
  offset in either direction (the sum is rounded to double precision and not checked). Hence some forward offset of the start makes the saved
  \<open>preciseStartTime\<close> exceed the saved \<open>preciseEndTime\<close>, and some backward offset makes it
  negative.
\<close>

theorem save_stores_unvalidated_times:
  "subtitle s = Some sub \<Longrightarrow> entryRefAt s sub (currentSubtitleIndex s) = Some a \<Longrightarrow>
   trim (editedText s) \<noteq> [] \<Longrightarrow>
   editedTime (handleTimeOffset d b f s) =
     (if b then (editedTime s)\<lparr>startTime' :=
                  js_round (startTime' (editedTime s) + (if f then d else - d))\<rparr>
      else (editedTime s)\<lparr>endTime' :=
             js_round (endTime' (editedTime s) + (if f then d else - d))\<rparr>) \<and>
   (let s' = handleSaveSubtitleEdit True s in
      subtitle s' = Some (nextAddr s) \<and>
      messages s' = messages s @ [message_success] \<and>
      \<not> editMode s' \<and>
      entryRefAt s' (nextAddr s) (currentSubtitleIndex s) = Some a \<and>
      preciseStartTime (entryObjs s' a) = startTime' (editedTime s) \<and>
      preciseEndTime (entryObjs s' a) = endTime' (editedTime s) \<and>
      updateSubtitleCalls s' = updateSubtitleCalls s @
        [(subtitleObjs s sub, readEntries s' (nextAddr s))]) \<and>
   (\<exists>d. let s' = handleSaveSubtitleEdit True (handleTimeOffset d True True s) in
      messages s' = messages s @ [message_success] \<and>
      preciseStartTime (entryObjs s' a) > preciseEndTime (entryObjs s' a)) \<and>
   (\<exists>d. let s' = handleSaveSubtitleEdit True (handleTimeOffset d True False s) in
      messages s' = messages s @ [message_success] \<and>
      preciseStartTime (entryObjs s' a) < 0)"
proof (intro conjI)
  assume sb: "subtitle s = Some sub"
    and ref: "entryRefAt s sub (currentSubtitleIndex s) = Some a"
    and tx: "trim (editedText s) \<noteq> []"
  show "editedTime (handleTimeOffset d b f s) =
     (if b then (editedTime s)\<lparr>startTime' :=
                  js_round (startTime' (editedTime s) + (if f then d else - d))\<rparr>
      else (editedTime s)\<lparr>endTime' :=
             js_round (endTime' (editedTime s) + (if f then d else - d))\<rparr>)"
    by (simp add: handleTimeOffset_def Let_def)
  show "let s' = handleSaveSubtitleEdit True s in
      subtitle s' = Some (nextAddr s) \<and>
      messages s' = messages s @ [message_success] \<and>
      \<not> editMode s' \<and>
      entryRefAt s' (nextAddr s) (currentSubtitleIndex s) = Some a \<and>
      preciseStartTime (entryObjs s' a) = startTime' (editedTime s) \<and>
      preciseEndTime (entryObjs s' a) = endTime' (editedTime s) \<and>
      updateSubtitleCalls s' = updateSubtitleCalls s @
        [(subtitleObjs s sub, readEntries s' (nextAddr s))]"
    unfolding Let_def using save_ok [OF sb ref tx] by blast
  let ?d = "2 * \<bar>endTime' (editedTime s)\<bar> + \<bar>startTime' (editedTime s)\<bar> + 1"
  let ?up = "handleTimeOffset ?d True True s"
  have "(startTime' (editedTime s) + ?d) / 2 \<le> js_round (startTime' (editedTime s) + ?d)"
    by (rule js_round_large) simp
  then have "endTime' (editedTime s) < js_round (startTime' (editedTime s) + ?d)" by simp
  then have "endTime' (editedTime ?up) < startTime' (editedTime ?up)"
    by (simp add: handleTimeOffset_def Let_def)
  then have "messages (handleSaveSubtitleEdit True ?up) = messages s @ [message_success] \<and>
      preciseStartTime (entryObjs (handleSaveSubtitleEdit True ?up) a)
        > preciseEndTime (entryObjs (handleSaveSubtitleEdit True ?up) a)"
    using save_ok(2,5,6) [of ?up sub a] sb ref tx
    by (simp add: offset_keeps)
  then show "\<exists>d. let s' = handleSaveSubtitleEdit True (handleTimeOffset d True True s) in
      messages s' = messages s @ [message_success] \<and>
      preciseStartTime (entryObjs s' a) > preciseEndTime (entryObjs s' a)"
    unfolding Let_def by blast
  let ?e = "\<bar>startTime' (editedTime s)\<bar> + 1"
  let ?down = "handleTimeOffset ?e True False s"
  have "js_round (startTime' (editedTime s) - ?e) \<le> (startTime' (editedTime s) - ?e) / 2"
    by (rule js_round_small) simp
  then have "js_round (startTime' (editedTime s) - ?e) < 0" by simp
  then have "startTime' (editedTime ?down) < 0"
    by (simp add: handleTimeOffset_def Let_def)
  then have "messages (handleSaveSubtitleEdit True ?down) = messages s @ [message_success] \<and>
      preciseStartTime (entryObjs (handleSaveSubtitleEdit True ?down) a) < 0"
    using save_ok(2,5) [of ?down sub a] sb ref tx
    by (simp add: offset_keeps)
  then show "\<exists>d. let s' = handleSaveSubtitleEdit True (handleTimeOffset d True False s) in
      messages s' = messages s @ [message_success] \<and>
      preciseStartTime (entryObjs s' a) < 0"
    unfolding Let_def by blast
qed

text \<open>
  From the bounds 100 and 900: the start moved forward by 1000 is saved as 1100, above
  the end 900; moved back by 500 it is saved as -400.
\<close>

theorem save_stores_unvalidated_times_witness:
  "subtitle (handleTimeOffset 1000 True True editing) = Some 2 \<and>
   trim (editedText (handleTimeOffset 1000 True True editing)) = [98] \<and>
   messages (handleSaveSubtitleEdit True (handleTimeOffset 1000 True True editing))
     = [message_success] \<and>
   preciseStartTime (entryObjs (handleSaveSubtitleEdit True
       (handleTimeOffset 1000 True True editing)) 0) = 1100 \<and>
   preciseEndTime (entryObjs (handleSaveSubtitleEdit True
       (handleTimeOffset 1000 True True editing)) 0) = 900 \<and>
   preciseStartTime (entryObjs (handleSaveSubtitleEdit True
       (handleTimeOffset 500 True False editing)) 0) = - 400"
proof -
  have r: "js_round 1100 = 1100" "js_round (- 400) = - 400"
    using js_round_of_int [of 1100] js_round_of_int [of "- 400"] by simp_all
  have up: "subtitle (handleTimeOffset 1000 True True editing) = Some 2"
    "entryRefAt (handleTimeOffset 1000 True True editing) 2
       (currentSubtitleIndex (handleTimeOffset 1000 True True editing)) = Some 0"
    "trim (editedText (handleTimeOffset 1000 True True editing)) = [98]"
    "startTime' (editedTime (handleTimeOffset 1000 True True editing)) = 1100"
    "endTime' (editedTime (handleTimeOffset 1000 True True editing)) = 900"
    "messages (handleTimeOffset 1000 True True editing) = []"
    by (simp_all add: handleTimeOffset_def Let_def editing_defs entryRefAt_def trim_def
        isWhiteSpace_def r)
  have down: "subtitle (handleTimeOffset 500 True False editing) = Some 2"
    "entryRefAt (handleTimeOffset 500 True False editing) 2
       (currentSubtitleIndex (handleTimeOffset 500 True False editing)) = Some 0"
    "trim (editedText (handleTimeOffset 500 True False editing)) \<noteq> []"
    "startTime' (editedTime (handleTimeOffset 500 True False editing)) = - 400"
    by (simp_all add: handleTimeOffset_def Let_def editing_defs entryRefAt_def trim_def
        isWhiteSpace_def r)
  have ne: "trim (editedText (handleTimeOffset 1000 True True editing)) \<noteq> []"
    using up(3) by simp
  from save_stores_unvalidated_times [OF up(1) up(2) ne]
    save_stores_unvalidated_times [OF down(1) down(2) down(3)] up down
  show ?thesis by (simp add: Let_def)
qed

text \<open>
  C2. The claim: saving builds a new track in which only the target entry is replaced,
  and the original track is untouched until the reference is swapped. The handler copies
  the \<open>Subtitle\<close> object only; the copy holds the same entry objects, and the handler
  writes the buffer into the entry object itself. In the session on entry 0 with the
  buffer 100, 900 and "b", at the \<open>await\<close> the state \<open>subtitle\<close> is still the old reference
  2, the new object is at 3 with the same \<open>entries\<close>, and the track read through the old
  reference already has the new bounds and text in entry 0. When the database call is
  rejected, the reference is never swapped, edit mode stays on, the failure is reported,
  and the track read through the old reference keeps the new bounds and text.
\<close>

theorem save_mutates_shared_entry:
  "(\<exists>s'. handleSaveSubtitleEdit_sync editing = Awaiting s' 3 \<and>
      subtitle editing = Some 2 \<and>
      subtitle s' = Some 2 \<and>
      readEntries editing 2 = [entry 0 0 1000, entry 1 1000 2000] \<and>
      readEntries s' 2 =
        [(entry 0 0 1000)\<lparr>preciseStartTime := 100, preciseEndTime := 900, text' := [98]\<rparr>,
         entry 1 1000 2000] \<and>
      entries (subtitleObjs s' 3) = entries (subtitleObjs s' 2)) \<and>
   subtitle (handleSaveSubtitleEdit False editing) = Some 2 \<and>
   editMode (handleSaveSubtitleEdit False editing) \<and>
   messages (handleSaveSubtitleEdit False editing) = [message_error] \<and>
   readEntries (handleSaveSubtitleEdit False editing) 2 =
     [(entry 0 0 1000)\<lparr>preciseStartTime := 100, preciseEndTime := 900, text' := [98]\<rparr>,
      entry 1 1000 2000]"
  by (simp add: handleSaveSubtitleEdit_def handleSaveSubtitleEdit_sync_def
      handleSaveSubtitleEdit_resume_def add_message_def editing_defs trim_def isWhiteSpace_def
      entryRefAt_def readEntries_def Let_def upt_rec)

section \<open>Theorems: play modes and scrubbing\<close>

lemma checkPlayMode_frame:
  "checkPlayMode b s = Inr (allowed, s1) \<Longrightarrow> s1 = s\<lparr>videoRef := videoRef s1\<rparr>"
  by (auto simp: checkPlayMode_def video_seek_def video_pause_def Let_def
      split: option.splits if_splits)

lemma readEntries_videoRef [simp]: "readEntries (s\<lparr>videoRef := x\<rparr>) sub = readEntries s sub"
  by (simp add: readEntries_def)

lemma handleTimeUpdate_gap:
  assumes r: "handleTimeUpdate s = Inr s'" and v: "videoRef s = Some v"
    and sb: "subtitle s = Some sub"
    and g: "findIndex (entryContains (currentTime v * 1000)) (readEntries s sub) = - 1"
  shows "currentSubtitleIndex s' = currentSubtitleIndex s"
proof (cases "checkPlayMode False s")
  case (Inl e)
  with r v sb show ?thesis by (simp add: handleTimeUpdate_def)
next
  case (Inr p)
  obtain allowed s1 where p: "p = (allowed, s1)" by (cases p)
  from Inr p have fr: "s1 = s\<lparr>videoRef := videoRef s1\<rparr>" by (simp add: checkPlayMode_frame)
  have i1: "currentSubtitleIndex s1 = currentSubtitleIndex s"
    by (subst fr) simp
  have e1: "readEntries s1 sub = readEntries s sub"
    by (subst fr) simp
  from r v sb Inr p g e1 have "s' = s1"
    by (simp add: handleTimeUpdate_def Let_def split: if_splits)
  with i1 show ?thesis by simp
qed

lemma video_seek_fields [simp]:
  "subtitle (video_seek t s) = subtitle s"
  "currentSubtitleIndex (video_seek t s) = currentSubtitleIndex s"
  "readEntries (video_seek t s) sub = readEntries s sub"
  "videoRef (video_seek t s) = map_option (\<lambda>v. v\<lparr>currentTime := t\<rparr>) (videoRef s)"
  by (simp_all add: video_seek_def)

text \<open>
  C4. Whenever the containment scan finds no entry at the time of a tick (the time lies
  in a gap), the tick leaves \<open>currentSubtitleIndex\<close> as it was: \<open>handleTimeUpdate\<close> sets the
  index only when the scan returns an index other than \<open>-1\<close>.
\<close>

theorem gap_keeps_current_index:
  "subtitle s = Some sub \<Longrightarrow>
   findIndex (entryContains (t * 1000)) (readEntries s sub) = - 1 \<Longrightarrow>
   currentSubtitleIndex (tick t s) = currentSubtitleIndex s \<and>
   (\<forall>s'. handleTimeUpdate (video_seek t s) = Inr s' \<longrightarrow>
      currentSubtitleIndex s' = currentSubtitleIndex s)"
proof -
  assume sb: "subtitle s = Some sub"
    and g: "findIndex (entryContains (t * 1000)) (readEntries s sub) = - 1"
  have h: "currentSubtitleIndex s' = currentSubtitleIndex s"
    if r: "handleTimeUpdate (video_seek t s) = Inr s'" for s'
  proof (cases "videoRef s")
    case None
    with r sb show ?thesis by (simp add: handleTimeUpdate_def)
  next
    case (Some v)
    have "currentSubtitleIndex s' = currentSubtitleIndex (video_seek t s)"
      by (rule handleTimeUpdate_gap [OF r, of "v\<lparr>currentTime := t\<rparr>" sub])
         (use Some sb g in simp_all)
    then show ?thesis by simp
  qed
  have "currentSubtitleIndex (tick t s) = currentSubtitleIndex s"
    using h by (cases "handleTimeUpdate (video_seek t s)") (simp_all add: tick_def)
  with h show ?thesis by blast
qed

text \<open>
  The scenario of the specification: in \<open>[{0,0,900},{1,1000,2000}]\<close> at 950 ms the scan
  returns \<open>-1\<close> and the index stays 0.
\<close>

theorem gap_keeps_current_index_witness:
  "subtitle in_gapped = Some 2 \<and>
   findIndex (entryContains (0.95 * 1000)) (readEntries in_gapped 2) = - 1 \<and>
   currentSubtitleIndex in_gapped = 0 \<and>
   currentSubtitleIndex (tick 0.95 in_gapped) = 0"
proof -
  have a: "subtitle in_gapped = Some 2"
    "findIndex (entryContains (0.95 * 1000)) (readEntries in_gapped 2) = - 1"
    "currentSubtitleIndex in_gapped = 0"
    by (simp_all add: in_gapped_def loaded_def gapped_def entry_def readEntries_def upt_rec
        findIndex_def entryContains_def)
  from gap_keeps_current_index [OF a(1) a(2)] a show ?thesis by simp
qed

lemma entryRefAt_videoRef [simp]: "entryRefAt (s\<lparr>videoRef := x\<rparr>) sub i = entryRefAt s sub i"
  by (simp add: entryRefAt_def)

lemma checkPlayMode_single_pause:
  assumes "subtitle s = Some sub" "videoRef s = Some v" "playMode s = SINGLE_PAUSE"
    "\<not> editMode s" "\<not> recordingMode s" "\<not> isSeeking s"
    "entryRefAt s sub (currentSubtitleIndex s) = Some a"
  shows "checkPlayMode b s =
     Inr (False, s\<lparr>videoRef := Some (v\<lparr>
        currentTime := (if b then preciseStartTime (entryObjs s a) / 1000 else currentTime v),
        paused := (paused v \<or> currentTime v * 1000 \<ge> preciseEndTime (entryObjs s a))\<rparr>)\<rparr>)"
proof -
  have "currentSubtitleIndex s \<noteq> - 1" using assms(7) by (auto simp: entryRefAt_def split: if_splits)
  with assms show ?thesis
    by (simp add: checkPlayMode_def video_seek_def video_pause_def Let_def)
qed

lemma tick_single_pause:
  assumes "subtitle s = Some sub" "videoRef s = Some v" "playMode s = SINGLE_PAUSE"
    "\<not> editMode s" "\<not> recordingMode s" "\<not> isSeeking s"
    "entryRefAt s sub (currentSubtitleIndex s) = Some a"
  shows "tick t s = s\<lparr>videoRef := Some (v\<lparr>currentTime := t,
            paused := (paused v \<or> t * 1000 \<ge> preciseEndTime (entryObjs s a))\<rparr>)\<rparr>"
proof -
  let ?s = "video_seek t s"
  have c: "checkPlayMode False ?s =
     Inr (False, ?s\<lparr>videoRef := Some ((v\<lparr>currentTime := t\<rparr>)\<lparr>
        currentTime := (if False then preciseStartTime (entryObjs ?s a) / 1000
                        else currentTime (v\<lparr>currentTime := t\<rparr>)),
        paused := (paused (v\<lparr>currentTime := t\<rparr>) \<or>
           currentTime (v\<lparr>currentTime := t\<rparr>) * 1000 \<ge> preciseEndTime (entryObjs ?s a))\<rparr>)\<rparr>)"
    by (rule checkPlayMode_single_pause [where sub = sub]) (use assms in \<open>simp_all add: video_seek_def\<close>)
  show ?thesis
    using assms(1,2) by (simp add: tick_def handleTimeUpdate_def c) (simp add: video_seek_def)
qed

lemma ticks_single_pause:
  "subtitle s = Some sub \<Longrightarrow> videoRef s = Some v \<Longrightarrow> playMode s = SINGLE_PAUSE \<Longrightarrow>
   \<not> editMode s \<Longrightarrow> \<not> recordingMode s \<Longrightarrow> \<not> isSeeking s \<Longrightarrow>
   entryRefAt s sub (currentSubtitleIndex s) = Some a \<Longrightarrow>
   \<exists>w. ticks ts s = s\<lparr>videoRef := Some w\<rparr>"
proof (induction ts arbitrary: s v)
  case Nil
  then show ?case by (intro exI [of _ v]) simp
next
  case (Cons t ts)
  let ?w = "v\<lparr>currentTime := t,
            paused := (paused v \<or> t * 1000 \<ge> preciseEndTime (entryObjs s a))\<rparr>"
  have tk: "tick t s = s\<lparr>videoRef := Some ?w\<rparr>"
    using Cons.prems by (rule tick_single_pause)
  have "\<exists>w. ticks ts (s\<lparr>videoRef := Some ?w\<rparr>) = (s\<lparr>videoRef := Some ?w\<rparr>)\<lparr>videoRef := Some w\<rparr>"
    by (rule Cons.IH [where v = ?w]) (use Cons.prems in simp_all)
  then show ?case by (simp add: tk)
qed

text \<open>
  C5, as amended. In single-pause mode, with a track loaded, the current index inside
  the track, neither edit mode nor recording mode on, and the seeking flag clear: a
  resume (the toggle while not playing) seeks to \<open>preciseStartTime\<close> of the current entry
  and plays; after any sequence of ticks the index is the same; and every tick at a time
  at or past \<open>preciseEndTime\<close> of the current entry, after any sequence of ticks, leaves
  the video paused and the index the same.
\<close>

theorem single_pause_holds_index:
  "subtitle s = Some sub \<Longrightarrow> videoRef s = Some v \<Longrightarrow> playMode s = SINGLE_PAUSE \<Longrightarrow>
   \<not> editMode s \<Longrightarrow> \<not> recordingMode s \<Longrightarrow> \<not> isSeeking s \<Longrightarrow>
   entryRefAt s sub (currentSubtitleIndex s) = Some a \<Longrightarrow>
   (\<not> isPlaying s \<longrightarrow>
      (\<exists>s'. handleTogglePlayPause s = Inr s' \<and>
         map_option currentTime (videoRef s') = Some (preciseStartTime (entryObjs s a) / 1000) \<and>
         map_option paused (videoRef s') = Some False \<and>
         currentSubtitleIndex s' = currentSubtitleIndex s)) \<and>
   (\<forall>ts t. currentSubtitleIndex (ticks ts s) = currentSubtitleIndex s \<and>
      (t * 1000 \<ge> preciseEndTime (entryObjs s a) \<longrightarrow>
         map_option paused (videoRef (tick t (ticks ts s))) = Some True \<and>
         currentSubtitleIndex (tick t (ticks ts s)) = currentSubtitleIndex s))"
proof (intro conjI allI impI)
  assume a: "subtitle s = Some sub" "videoRef s = Some v" "playMode s = SINGLE_PAUSE"
    "\<not> editMode s" "\<not> recordingMode s" "\<not> isSeeking s"
    "entryRefAt s sub (currentSubtitleIndex s) = Some a"
  {
    assume "\<not> isPlaying s"
    then show "\<exists>s'. handleTogglePlayPause s = Inr s' \<and>
         map_option currentTime (videoRef s') = Some (preciseStartTime (entryObjs s a) / 1000) \<and>
         map_option paused (videoRef s') = Some False \<and>
         currentSubtitleIndex s' = currentSubtitleIndex s"
      using a(2) by (simp add: handleTogglePlayPause_def checkPlayMode_single_pause [OF a] video_play_def)
  }
  fix ts t
  from ticks_single_pause [OF a, of ts] obtain w where w: "ticks ts s = s\<lparr>videoRef := Some w\<rparr>"
    by blast
  show "currentSubtitleIndex (ticks ts s) = currentSubtitleIndex s" by (simp add: w)
  {
    assume b: "t * 1000 \<ge> preciseEndTime (entryObjs s a)"
    have tk: "tick t (s\<lparr>videoRef := Some w\<rparr>) = (s\<lparr>videoRef := Some w\<rparr>)\<lparr>videoRef := Some (w\<lparr>currentTime := t,
            paused := (paused w \<or> t * 1000 \<ge> preciseEndTime (entryObjs (s\<lparr>videoRef := Some w\<rparr>) a))\<rparr>)\<rparr>"
      by (rule tick_single_pause [where sub = sub]) (use a in simp_all)
    show "map_option paused (videoRef (tick t (ticks ts s))) = Some True"
      using b by (simp add: w tk)
    show "currentSubtitleIndex (tick t (ticks ts s)) = currentSubtitleIndex s"
      by (simp add: w tk)
  }
qed

lemmas state_defs = loaded_def adjacent_def gapped_def entry_def handleSeeking_def
  handleSeeked_def

text \<open>
  Entry 0 of \<open>[{0,0,1000},{1,1000,2000}]\<close> current, paused at 1.2 s: the resume seeks to 0;
  the ticks at 0.5, 1 and 1.5 s keep the index 0, and so does the tick at 1.7 s, which
  leaves the video paused.
\<close>

theorem single_pause_holds_index_witness:
  "\<not> isPlaying single_pause \<and> playMode single_pause = SINGLE_PAUSE \<and>
   currentSubtitleIndex single_pause = 0 \<and>
   (\<exists>s'. handleTogglePlayPause single_pause = Inr s' \<and>
      map_option currentTime (videoRef s') = Some 0 \<and>
      map_option paused (videoRef s') = Some False) \<and>
   currentSubtitleIndex (ticks [0.5, 1, 1.5] single_pause) = 0 \<and>
   map_option paused (videoRef (tick 1.7 (ticks [0.5, 1, 1.5] single_pause))) = Some True \<and>
   currentSubtitleIndex (tick 1.7 (ticks [0.5, 1, 1.5] single_pause)) = 0"
proof -
  have h: "subtitle single_pause = Some 2"
    "videoRef single_pause = Some \<lparr>currentTime = 1.2, paused = True\<rparr>"
    "playMode single_pause = SINGLE_PAUSE" "\<not> editMode single_pause"
    "\<not> recordingMode single_pause" "\<not> isSeeking single_pause"
    "entryRefAt single_pause 2 (currentSubtitleIndex single_pause) = Some 0"
    by (simp_all add: single_pause_def state_defs entryRefAt_def)
  have g: "\<not> isPlaying single_pause" "currentSubtitleIndex single_pause = 0"
    "preciseStartTime (entryObjs single_pause 0) = 0"
    "preciseEndTime (entryObjs single_pause 0) = 1000"
    by (simp_all add: single_pause_def state_defs)
  note th = single_pause_holds_index [OF h]
  from th g have 1: "\<exists>s'. handleTogglePlayPause single_pause = Inr s' \<and>
      map_option currentTime (videoRef s') = Some 0 \<and>
      map_option paused (videoRef s') = Some False"
    by auto
  from th have "currentSubtitleIndex (ticks [0.5, 1, 1.5] single_pause) = currentSubtitleIndex single_pause \<and>
      (1.7 * 1000 \<ge> preciseEndTime (entryObjs single_pause 0) \<longrightarrow>
         map_option paused (videoRef (tick 1.7 (ticks [0.5, 1, 1.5] single_pause))) = Some True \<and>
         currentSubtitleIndex (tick 1.7 (ticks [0.5, 1, 1.5] single_pause)) = currentSubtitleIndex single_pause)"
    by blast
  with g have 2: "currentSubtitleIndex (ticks [0.5, 1, 1.5] single_pause) = 0"
    "map_option paused (videoRef (tick 1.7 (ticks [0.5, 1, 1.5] single_pause))) = Some True"
    "currentSubtitleIndex (tick 1.7 (ticks [0.5, 1, 1.5] single_pause)) = 0"
    by simp_all
  from 1 2 g h show ?thesis by blast
qed

text \<open>
  C5, as stated, does not ask for the seeking flag to be clear. After a scrub the flag is
  set, \<open>checkPlayMode\<close> returns \<open>true\<close> before it looks at the play mode, and the tick runs
  the containment scan: in single-pause mode with entry 0 current, the tick at 1.5 s,
  past \<open>preciseEndTime\<close> 1000 of entry 0, does not pause and moves the index to 1.
\<close>

theorem single_pause_after_scrub_counterexample:
  "playMode scrubbed_single_pause = SINGLE_PAUSE \<and>
   \<not> editMode scrubbed_single_pause \<and> \<not> recordingMode scrubbed_single_pause \<and>
   currentSubtitleIndex scrubbed_single_pause = 0 \<and>
   entryRefAt scrubbed_single_pause 2 0 = Some 0 \<and>
   preciseEndTime (entryObjs scrubbed_single_pause 0) = 1000 \<and>
   currentSubtitleIndex (ticks [1.5] scrubbed_single_pause) = 1 \<and>
   map_option paused (videoRef (ticks [1.5] scrubbed_single_pause)) = Some False"
  by (simp add: scrubbed_single_pause_def state_defs entryRefAt_def tick_def
      handleTimeUpdate_def checkPlayMode_def video_seek_def readEntries_def findIndex_def
      entryContains_def upt_rec)

text \<open>
  C9, as amended. On the \<open>seeked\<close> event the second copy of the page clears the seeking
  flag and the first copy sets it, so the two handlers differ on every state. In the
  second copy a tick does nothing while the flag is set. In the first copy a set flag
  neither suspends the index nor stays for good: a tick then skips the play-mode rules,
  and when its time lies inside an entry it sets the index to the first such entry and
  clears the flag.
\<close>

theorem scrub_end_variants:
  "isSeeking (handleSeeked_2 s) = False \<and>
   isSeeking (handleSeeked s) = True \<and>
   handleSeeked s \<noteq> handleSeeked_2 s \<and>
   (isSeeking s \<longrightarrow> handleTimeUpdate_2 s = Inr s) \<and>
   (isSeeking s \<and> subtitle s = Some sub \<and> videoRef s = Some v \<and>
    findIndex (entryContains (currentTime v * 1000)) (readEntries s sub) \<noteq> - 1 \<longrightarrow>
      handleTimeUpdate s =
        Inr (s\<lparr>currentSubtitleIndex :=
                 findIndex (entryContains (currentTime v * 1000)) (readEntries s sub),
               isSeeking := False\<rparr>))"
proof (intro conjI impI)
  show "isSeeking (handleSeeked_2 s) = False" by (simp add: handleSeeked_2_def)
  show "isSeeking (handleSeeked s) = True" by (simp add: handleSeeked_def)
  show "handleSeeked s \<noteq> handleSeeked_2 s"
  proof
    assume "handleSeeked s = handleSeeked_2 s"
    then have "isSeeking (handleSeeked s) = isSeeking (handleSeeked_2 s)" by simp
    then show False by (simp add: handleSeeked_def handleSeeked_2_def)
  qed
  show "handleTimeUpdate_2 s = Inr s" if "isSeeking s"
    using that by (simp add: handleTimeUpdate_2_def)
  show "handleTimeUpdate s =
        Inr (s\<lparr>currentSubtitleIndex :=
                 findIndex (entryContains (currentTime v * 1000)) (readEntries s sub),
               isSeeking := False\<rparr>)"
    if "isSeeking s \<and> subtitle s = Some sub \<and> videoRef s = Some v \<and>
    findIndex (entryContains (currentTime v * 1000)) (readEntries s sub) \<noteq> - 1"
    using that by (simp add: handleTimeUpdate_def checkPlayMode_def Let_def)
qed

text \<open>
  After a scrub of \<open>[{0,0,1000},{1,1000,2000}]\<close> to 1.5 s: the first copy's flag is set and
  its tick moves the index to 1 and clears the flag; the second copy's flag is clear
  after \<open>seeked\<close>, and its tick would do nothing were the flag set.
\<close>

theorem scrub_end_variants_witness:
  "isSeeking (video_seek 1.5 scrubbed) \<and>
   isSeeking (handleSeeked (handleSeeking (loaded adjacent))) \<and>
   \<not> isSeeking (handleSeeked_2 (handleSeeking_2 (loaded adjacent))) \<and>
   handleTimeUpdate_2 (video_seek 1.5 scrubbed) = Inr (video_seek 1.5 scrubbed) \<and>
   handleTimeUpdate (video_seek 1.5 scrubbed) =
     Inr ((video_seek 1.5 scrubbed)\<lparr>currentSubtitleIndex := 1, isSeeking := False\<rparr>)"
proof -
  have h: "isSeeking (video_seek 1.5 scrubbed)" "subtitle (video_seek 1.5 scrubbed) = Some 2"
    "videoRef (video_seek 1.5 scrubbed) = Some \<lparr>currentTime = 1.5, paused = False\<rparr>"
    by (simp_all add: scrubbed_def state_defs video_seek_def)
  have f: "findIndex (entryContains (currentTime \<lparr>currentTime = 1.5, paused = False\<rparr> * 1000))
       (readEntries (video_seek 1.5 scrubbed) 2) = 1"
    by (simp add: scrubbed_def state_defs video_seek_def readEntries_def findIndex_def
        entryContains_def upt_rec)
  from scrub_end_variants [of "video_seek 1.5 scrubbed" 2 "\<lparr>currentTime = 1.5, paused = False\<rparr>"]
    scrub_end_variants [of "handleSeeking (loaded adjacent)" 2 "\<lparr>currentTime = 1.5, paused = False\<rparr>"]
    scrub_end_variants [of "handleSeeking_2 (loaded adjacent)" 2 "\<lparr>currentTime = 1.5, paused = False\<rparr>"]
    h f show ?thesis by simp
qed

text \<open>
  C9, as stated, says that in the copy that does not clear the flag on \<open>seeked\<close> the index
  stays suspended after a scrub and the flag is never reset. In that copy, after a scrub
  of \<open>[{0,0,1000},{1,1000,2000}]\<close>, the tick at 1.5 s moves the index from \<open>-1\<close> to 1 and
  resets the flag.
\<close>

theorem seeking_flag_reset_counterexample:
  "isSeeking scrubbed \<and> currentSubtitleIndex scrubbed = - 1 \<and>
   currentSubtitleIndex (tick 1.5 scrubbed) = 1 \<and>
   \<not> isSeeking (tick 1.5 scrubbed)"
  by (simp add: scrubbed_def state_defs tick_def handleTimeUpdate_def checkPlayMode_def
      video_seek_def readEntries_def findIndex_def entryContains_def upt_rec)

section \<open>Theorems: persisting the index\<close>

lemmas hook_defs = mount_def render_def effect_def run_cleanup_def debouncedSave_def
  debouncedSave_cancel_def updateSubtitleIndex_def advance_def unmount_def

text \<open>
  C1. The claim: a burst of index changes inside the 500 ms window leads to exactly one
  write, of the last value, and a change followed at once by teardown leads to exactly
  one synchronous write and leaves no call waiting. The function returned by the effect
  is called before every re-run of the effect, not only on unmount. After the first
  render with index 0, the changes to 1 and, 100 ms later, to 2, followed by 500 ms of
  rest, therefore make two writes: the index 1 when the second change arrives, and the
  index 2 when the debounced call falls due. The part about teardown holds: the change
  to 1 followed by the unmount makes the single write of 1 and nothing is left waiting.
\<close>

theorem burst_of_two_changes_writes_twice:
  "updateSubtitleIndexCalls
     (run [Render 7 0, Render 7 1, Advance 100, Render 7 2, Advance 500] mount)
     = [(7, 1), (7, 2)]
   \<and> updateSubtitleIndexCalls (run [Render 7 0, Render 7 1, Unmount] mount) = [(7, 1)]
   \<and> pending (run [Render 7 0, Render 7 1, Unmount] mount) = None"
  by (simp add: hook_defs)

end
